theory Spec2Isabelle
  imports Main "HOL-Library.AList" "HOL-Library.Multiset"
begin

section \<open>Python values, exceptions and containers\<close>

text \<open>
  The reader is Python. Integers are unbounded (\<open>int\<close>), lists are lists, strings are
  \<open>string\<close> (the mesh format is ASCII text). Every exception the code can raise is a value:
  \<open>RuntimeError\<close> carries the message of the \<open>raise\<close> statement, the other three are
  the built-in exceptions of indexing, conversion and dictionary lookup.

  Floating point is not modelled: the coordinate type is a type variable \<open>'r\<close> and the
  built-in \<open>float()\<close> is a parameter \<open>pf\<close> of the parser (\<open>None\<close> when it raises).
\<close>

datatype error = RuntimeError string | IndexError | ValueError | KeyError

definition bind_res :: "error + 'a \<Rightarrow> ('a \<Rightarrow> error + 'b) \<Rightarrow> error + 'b" where
  "bind_res m f = (case m of Inl e \<Rightarrow> Inl e | Inr x \<Rightarrow> f x)"

text \<open>\<open>[f(x) for x in xs]\<close> where \<open>f\<close> may raise: the first exception ends the comprehension.\<close>

fun map_res :: "('a \<Rightarrow> error + 'b) \<Rightarrow> 'a list \<Rightarrow> error + 'b list" where
  "map_res f [] = Inr []"
| "map_res f (x # xs) =
     bind_res (f x) (\<lambda>y. bind_res (map_res f xs) (\<lambda>ys. Inr (y # ys)))"

text \<open>\<open>d[k]\<close> on a dictionary: \<open>KeyError\<close> when the key is absent.\<close>

definition dict_get :: "('k \<rightharpoonup> 'v) \<Rightarrow> 'k \<Rightarrow> error + 'v" where
  "dict_get d k = (case d k of None \<Rightarrow> Inl KeyError | Some v \<Rightarrow> Inr v)"

text \<open>
  \<open>a[j]\<close> on the first axis of a numpy array, for one integer of an index list
  (\<open>global_pts[used, :]\<close>): an index in \<open>[-n, n)\<close> is accepted, a negative one counts
  from the end, anything else raises \<open>IndexError\<close>. (An index too large for a machine
  integer raises as well; the model gives it the same exception.)
\<close>

definition np_row :: "'a list \<Rightarrow> int \<Rightarrow> error + 'a" where
  "np_row a j =
     (let n = int (length a)
      in if 0 \<le> j \<and> j < n then Inr (a ! nat j)
         else if - n \<le> j \<and> j < 0 then Inr (a ! nat (n + j))
         else Inl IndexError)"

definition np_take :: "'a list \<Rightarrow> int list \<Rightarrow> error + 'a list" where
  "np_take a js = map_res (np_row a) js"

section \<open>The two tables of the module\<close>

definition VTK_TYPE_MAP :: "(int \<times> int) list" where
  "VTK_TYPE_MAP = [(3, 3), (5, 5), (9, 9), (10, 10), (12, 12), (13, 13), (14, 14)]"

definition SU2_NNODES :: "(int \<times> nat) list" where
  "SU2_NNODES = [(3, 2), (5, 3), (9, 4), (10, 4), (12, 8), (13, 6), (14, 5)]"

section \<open>\<open>build_ugrid\<close>: the unstructured grid\<close>

text \<open>
  A \<open>vtkUnstructuredGrid\<close> holding geometry only: its points and its cells, a cell being
  the cell type and the list of point ids. \<open>_strip_arrays\<close> clears data arrays, of which
  this model has none.
\<close>

record 'r ugrid =
  ug_points :: "('r \<times> 'r \<times> 'r) list"
  ug_cells :: "(int \<times> int list) list"

text \<open>\<open>(float(p[0]), float(p[1]), float(p[2]))\<close> for one row \<open>p\<close> of the points array.\<close>

definition point3 :: "'r list \<Rightarrow> error + ('r \<times> 'r \<times> 'r)" where
  "point3 p = (if length p < 3 then Inl IndexError else Inr (p ! 0, p ! 1, p ! 2))"

definition build_ugrid :: "'r list list \<Rightarrow> int list list \<Rightarrow> int list \<Rightarrow> error + 'r ugrid" where
  "build_ugrid points conns ctypes =
     bind_res (map_res point3 points) (\<lambda>vtk_pts.
       Inr \<lparr>ug_points = vtk_pts,
            ug_cells = map (\<lambda>(conn, ct). (ct, conn)) (zip conns ctypes)\<rparr>)"

section \<open>Compaction of one marker\<close>

text \<open>
  Both compaction functions end with the same statements (lines 189--198 of
  \<open>build_surface_compacted\<close>, lines 218--227 of \<open>build_boundary_compacted_2d\<close>):
  \<^verbatim>\<open>
    if not conns:
        return None
    used = sorted(used)
    old2new = {o: i for i, o in enumerate(used)}
    local_pts = global_pts[used, :]
    local_conns = [[old2new[n] for n in c] for c in conns]
    return build_ugrid(local_pts, local_conns, ctypes)
  \<close>
  \<open>used\<close> is a Python set of integers, here an \<open>int set\<close>; \<open>sorted\<close> of it is
  \<open>sorted_list_of_set\<close>. The dictionary comprehension stores the pairs in order, a later
  pair replacing an earlier one with the same key.
\<close>

definition old2new_of :: "int list \<Rightarrow> (int \<rightharpoonup> int)" where
  "old2new_of used = fold (\<lambda>(i, old) d. d(old \<mapsto> int i)) (enumerate 0 used) Map.empty"

definition compact_and_build ::
  "'r list list \<Rightarrow> int set \<Rightarrow> int list list \<Rightarrow> int list \<Rightarrow> error + 'r ugrid option" where
  "compact_and_build global_pts used_set conns ctypes =
     (if conns = [] then Inr None
      else
        let used = sorted_list_of_set used_set;
            old2new = old2new_of used
        in bind_res (np_take global_pts used) (\<lambda>local_pts.
           bind_res (map_res (\<lambda>c. map_res (\<lambda>n. dict_get old2new n) c) conns) (\<lambda>local_conns.
           bind_res (build_ugrid local_pts local_conns ctypes) (\<lambda>g. Inr (Some g)))))"

text \<open>
  The loop of \<open>build_surface_compacted\<close> over \<open>elems\<close>, with its three accumulators
  \<open>used\<close>, \<open>conns\<close> and \<open>ctypes\<close>.
\<close>

fun surface_loop ::
  "int list list \<Rightarrow> int set \<times> int list list \<times> int list
     \<Rightarrow> error + (int set \<times> int list list \<times> int list)" where
  "surface_loop [] acc = Inr acc"
| "surface_loop (e # es) (used, conns, ctypes) =
     (if e = [] then surface_loop es (used, conns, ctypes)
      else
        let etype = hd e
        in if etype = 5 \<or> etype = 9 then
             (let conn = tl e
              in bind_res (dict_get (map_of VTK_TYPE_MAP) etype) (\<lambda>ct.
                   surface_loop es (used \<union> set conn, conns @ [conn], ctypes @ [ct])))
           else surface_loop es (used, conns, ctypes))"

definition build_surface_compacted ::
  "'r list list \<Rightarrow> int list list \<Rightarrow> error + 'r ugrid option" where
  "build_surface_compacted global_pts elems =
     bind_res (surface_loop elems ({}, [], [])) (\<lambda>(used, conns, ctypes).
       compact_and_build global_pts used conns ctypes)"

text \<open>
  The loop of \<open>build_boundary_compacted_2d\<close>: \<open>e[1:3]\<close> is \<open>take 2 (tl e)\<close>, and the
  element is kept only when that slice has two entries.
\<close>

fun boundary_loop ::
  "int list list \<Rightarrow> int set \<times> int list list \<times> int list
     \<Rightarrow> error + (int set \<times> int list list \<times> int list)" where
  "boundary_loop [] acc = Inr acc"
| "boundary_loop (e # es) (used, conns, ctypes) =
     (if e = [] then boundary_loop es (used, conns, ctypes)
      else if hd e = 3 then
        (let conn = take 2 (tl e)
         in if length conn = 2 then
              bind_res (dict_get (map_of VTK_TYPE_MAP) 3) (\<lambda>ct.
                boundary_loop es (used \<union> set conn, conns @ [conn], ctypes @ [ct]))
            else boundary_loop es (used, conns, ctypes))
      else boundary_loop es (used, conns, ctypes))"

definition build_boundary_compacted_2d ::
  "'r list list \<Rightarrow> int list list \<Rightarrow> error + 'r ugrid option" where
  "build_boundary_compacted_2d global_pts elems =
     bind_res (boundary_loop elems ({}, [], [])) (\<lambda>(used, conns, ctypes).
       compact_and_build global_pts used conns ctypes)"

section \<open>Strings: the \<open>str\<close> methods the reader uses\<close>

text \<open>
  The white space of \<open>str.strip()\<close> and \<open>str.split()\<close> among the ASCII characters:
  tab, line feed, vertical tab, form feed, carriage return, the four separators
  \<open>0x1c\<close>--\<open>0x1f\<close> and the space.
\<close>

definition is_space :: "char \<Rightarrow> bool" where
  "is_space c \<longleftrightarrow> (of_char c :: nat) \<in> {9, 10, 11, 12, 13, 28, 29, 30, 31, 32}"

definition strip :: "string \<Rightarrow> string" where
  "strip s = rev (dropWhile is_space (rev (dropWhile is_space s)))"

definition startswith :: "string \<Rightarrow> string \<Rightarrow> bool" where
  "startswith s key \<longleftrightarrow> take (length key) s = key"

text \<open>\<open>s.split(sep)\<close> for a one-character separator: every occurrence cuts, so the result
  has one more piece than \<open>s\<close> has separators.\<close>

fun split_on :: "char \<Rightarrow> string \<Rightarrow> string list" where
  "split_on sep [] = [[]]"
| "split_on sep (c # cs) =
     (if c = sep then [] # split_on sep cs
      else (case split_on sep cs of w # ws \<Rightarrow> (c # w) # ws | [] \<Rightarrow> [[c]]))"

text \<open>\<open>s.split()\<close>: the maximal runs of characters that are not white space; \<open>w\<close> is
  the run being read.\<close>

fun split_ws_from :: "string \<Rightarrow> string \<Rightarrow> string list" where
  "split_ws_from w [] = (if w = [] then [] else [w])"
| "split_ws_from w (c # cs) =
     (if is_space c then (if w = [] then split_ws_from [] cs else w # split_ws_from [] cs)
      else split_ws_from (w @ [c]) cs)"

definition split_ws :: "string \<Rightarrow> string list" where
  "split_ws s = split_ws_from [] s"

text \<open>\<open>xs[i]\<close> for an index that is never negative, and \<open>xs[:n]\<close> for any integer.\<close>

definition nth_res :: "'a list \<Rightarrow> nat \<Rightarrow> error + 'a" where
  "nth_res xs i = (if i < length xs then Inr (xs ! i) else Inl IndexError)"

definition py_take :: "int \<Rightarrow> 'a list \<Rightarrow> 'a list" where
  "py_take n xs = (if 0 \<le> n then take (nat n) xs else take (length xs - nat (- n)) xs)"

text \<open>
  \<open>int(s)\<close> on a string: the white space \<open>int\<close> itself ignores around the literal is
  tab, line feed, vertical tab, form feed, carriage return and the space only (the four
  separators \<open>0x1c\<close>--\<open>0x1f\<close>, which \<open>str.strip()\<close> removes, make \<open>int\<close> raise
  \<open>ValueError\<close>); then an optional sign and decimal digits, single underscores allowed
  between digits. (The interpreter's limit on the number of digits is not modelled.)
\<close>

definition is_int_space :: "char \<Rightarrow> bool" where
  "is_int_space c \<longleftrightarrow> (of_char c :: nat) \<in> {9, 10, 11, 12, 13, 32}"

definition int_strip :: "string \<Rightarrow> string" where
  "int_strip s = rev (dropWhile is_int_space (rev (dropWhile is_int_space s)))"

definition is_digit :: "char \<Rightarrow> bool" where
  "is_digit c \<longleftrightarrow> 48 \<le> (of_char c :: nat) \<and> (of_char c :: nat) \<le> 57"

definition digit_val :: "char \<Rightarrow> int" where
  "digit_val c = int (of_char c) - 48"

fun int_digits :: "int \<Rightarrow> bool \<Rightarrow> string \<Rightarrow> int option" where
  "int_digits acc prev [] = (if prev then Some acc else None)"
| "int_digits acc prev (c # cs) =
     (if is_digit c then int_digits (10 * acc + digit_val c) True cs
      else if c = CHR ''_'' \<and> prev then int_digits acc False cs
      else None)"

definition py_int :: "string \<Rightarrow> error + int" where
  "py_int s =
     (let r = (case int_strip s of
                 [] \<Rightarrow> None
               | c # cs \<Rightarrow>
                   if c = CHR ''-'' then map_option uminus (int_digits 0 False cs)
                   else if c = CHR ''+'' then int_digits 0 False cs
                   else int_digits 0 False (c # cs))
      in case r of None \<Rightarrow> Inl ValueError | Some n \<Rightarrow> Inr n)"

text \<open>\<open>float(s)\<close>, through the parameter \<open>pf\<close>.\<close>

definition py_float :: "(string \<Rightarrow> 'r option) \<Rightarrow> string \<Rightarrow> error + 'r" where
  "py_float pf s = (case pf s of None \<Rightarrow> Inl ValueError | Some x \<Rightarrow> Inr x)"

section \<open>\<open>read_su2\<close>\<close>

text \<open>
  The argument \<open>f\<close> is the open file as Python iterates it: the list of its raw lines.
  \<^verbatim>\<open>lines = [l.strip() for l in f if l.strip() and not l.startswith("%")]\<close>
\<close>

definition read_lines :: "string list \<Rightarrow> string list" where
  "read_lines f = map strip (filter (\<lambda>l. strip l \<noteq> [] \<and> \<not> startswith l ''%'') f)"

text \<open>The local function \<open>find(key)\<close>: the index of the first line that starts with \<open>key\<close>.\<close>

fun find_line :: "string list \<Rightarrow> string \<Rightarrow> nat option" where
  "find_line [] key = None"
| "find_line (l # ls) key =
     (if startswith l key then Some 0 else map_option Suc (find_line ls key))"

text \<open>The expressions \<open>l.split("=")[1]\<close> and \<open>int(l.split("=")[1])\<close>, written at
  every \<open>KEY= value\<close> line, and \<open>list(map(int, l.split()))\<close>, written at every element
  line.\<close>

definition eq_field :: "string \<Rightarrow> error + string" where
  "eq_field l = nth_res (split_on CHR ''='' l) 1"

definition header_int :: "string \<Rightarrow> error + int" where
  "header_int l = bind_res (eq_field l) py_int"

definition int_fields :: "string \<Rightarrow> error + int list" where
  "int_fields l = map_res py_int (split_ws l)"

text \<open>
  \<open>np.zeros((npoin, 3))\<close> raises \<open>ValueError\<close> on a negative count. The assignment
  \<open>pts[k, :ndime] = xyz\<close> fills the slots \<open>row[:ndime]\<close> of row \<open>k\<close>: numpy accepts a
  value of the same length, or of length one (which it repeats), and raises
  \<open>ValueError\<close> otherwise.
\<close>

definition np_zeros :: "int \<Rightarrow> error + ('r::zero) list list" where
  "np_zeros npoin = (if npoin < 0 then Inl ValueError else Inr (replicate (nat npoin) [0, 0, 0]))"

definition assign_prefix :: "int \<Rightarrow> 'r list \<Rightarrow> 'r list \<Rightarrow> error + 'r list" where
  "assign_prefix ndime xyz row =
     (let w = length (py_take ndime row)
      in if length xyz = w then Inr (xyz @ drop w row)
         else if length xyz = 1 then Inr (replicate w (hd xyz) @ drop w row)
         else Inl ValueError)"

text \<open>The loop \<open>for k in range(npoin)\<close> over the point lines; \<open>i\<close> is the index of the
  \<open>NPOIN\<close> line.\<close>

fun read_points ::
  "(string \<Rightarrow> 'r option) \<Rightarrow> int \<Rightarrow> string list \<Rightarrow> nat \<Rightarrow> nat list \<Rightarrow> 'r list list
     \<Rightarrow> error + 'r list list" where
  "read_points pf ndime lines i [] pts = Inr pts"
| "read_points pf ndime lines i (k # ks) pts =
     bind_res (nth_res lines (i + 1 + k)) (\<lambda>l.
     bind_res (map_res (py_float pf) (py_take ndime (split_ws l))) (\<lambda>xyz.
     bind_res (nth_res pts k) (\<lambda>row.
     bind_res (assign_prefix ndime xyz row) (\<lambda>row'.
       read_points pf ndime lines i ks (pts[k := row'])))))"

text \<open>The loop \<open>for k in range(nelem)\<close> over the volume element lines; \<open>continue\<close> goes
  to the next \<open>k\<close> with the accumulators unchanged.\<close>

fun read_elems ::
  "int \<Rightarrow> string list \<Rightarrow> nat \<Rightarrow> nat list \<Rightarrow> int list list \<times> int list
     \<Rightarrow> error + (int list list \<times> int list)" where
  "read_elems ndime lines i_elem [] acc = Inr acc"
| "read_elems ndime lines i_elem (k # ks) (vol_conns, vol_ctypes) =
     bind_res (nth_res lines (i_elem + 1 + k)) (\<lambda>l.
     bind_res (int_fields l) (\<lambda>parts.
     bind_res (nth_res parts 0) (\<lambda>etype.
       if map_of VTK_TYPE_MAP etype = None
       then read_elems ndime lines i_elem ks (vol_conns, vol_ctypes)
       else
         let conn = (if ndime = 2 \<and> map_of SU2_NNODES etype \<noteq> None
                     then take (the (map_of SU2_NNODES etype)) (drop 1 parts)
                     else drop 1 parts)
         in bind_res (dict_get (map_of VTK_TYPE_MAP) etype) (\<lambda>ct.
              read_elems ndime lines i_elem ks (vol_conns @ [conn], vol_ctypes @ [ct])))))"

text \<open>The block \<open>---- NELEM ----\<close>: an absent section leaves both lists empty.\<close>

definition read_volume :: "int \<Rightarrow> string list \<Rightarrow> error + (int list list \<times> int list)" where
  "read_volume ndime lines =
     (case find_line lines ''NELEM'' of
        None \<Rightarrow> Inr ([], [])
      | Some i_elem \<Rightarrow>
          bind_res (header_int (lines ! i_elem)) (\<lambda>nelem.
            read_elems ndime lines i_elem [0..<nat nelem] ([], [])))"

text \<open>The inner loop \<open>for _ in range(ne)\<close> of one marker: \<open>p\<close> is the line cursor, and
  \<open>e[:1 + SU2_NNODES[e[0]]]\<close> the 2D correction.\<close>

fun marker_elems ::
  "int \<Rightarrow> string list \<Rightarrow> nat \<Rightarrow> nat \<Rightarrow> int list list \<Rightarrow> error + (nat \<times> int list list)" where
  "marker_elems ndime lines 0 p elems = Inr (p, elems)"
| "marker_elems ndime lines (Suc n) p elems =
     bind_res (nth_res lines p) (\<lambda>l.
     bind_res (int_fields l) (\<lambda>e.
       let e' = (if ndime = 2 \<and> e \<noteq> [] \<and> map_of SU2_NNODES (hd e) \<noteq> None
                 then take (1 + the (map_of SU2_NNODES (hd e))) e
                 else e)
       in marker_elems ndime lines n (p + 1) (elems @ [e'])))"

text \<open>
  The outer loop \<open>for _ in range(nmark)\<close>. The dictionary \<open>markers\<close> keeps its keys in
  the order of their first insertion, and \<open>markers[tag] = elems\<close> replaces the value of
  a key that is already there: an association list under \<open>AList.update\<close>.
\<close>

fun read_markers ::
  "int \<Rightarrow> string list \<Rightarrow> nat \<Rightarrow> nat \<Rightarrow> (string \<times> int list list) list
     \<Rightarrow> error + (string \<times> int list list) list" where
  "read_markers ndime lines 0 p markers = Inr markers"
| "read_markers ndime lines (Suc n) p markers =
     bind_res (nth_res lines p) (\<lambda>l.
     bind_res (eq_field l) (\<lambda>t.
       let tag = strip t
       in bind_res (nth_res lines (p + 1)) (\<lambda>l'.
          bind_res (header_int l') (\<lambda>ne.
          bind_res (marker_elems ndime lines (nat ne) (p + 2) []) (\<lambda>(p', elems).
            read_markers ndime lines n p' (AList.update tag elems markers))))))"

type_synonym 'r su2 =
  "int \<times> 'r list list \<times> int list list \<times> int list \<times> (string \<times> int list list) list"

definition read_su2 :: "(string \<Rightarrow> 'r option) \<Rightarrow> string list \<Rightarrow> error + ('r::zero) su2" where
  "read_su2 pf f =
     (let lines = read_lines f
      in case find_line lines ''NDIME'' of
           None \<Rightarrow> Inl (RuntimeError ''NDIME not found'')
         | Some i \<Rightarrow>
      bind_res (header_int (lines ! i)) (\<lambda>ndime.
        case find_line lines ''NPOIN'' of
          None \<Rightarrow> Inl (RuntimeError ''NPOIN not found'')
        | Some i \<Rightarrow>
      bind_res (header_int (lines ! i)) (\<lambda>npoin.
      bind_res (np_zeros npoin) (\<lambda>pts0.
      bind_res (read_points pf ndime lines i [0..<nat npoin] pts0) (\<lambda>pts.
      bind_res (read_volume ndime lines) (\<lambda>(vol_conns, vol_ctypes).
        case find_line lines ''NMARK'' of
          None \<Rightarrow> Inl (RuntimeError ''NMARK not found'')
        | Some i \<Rightarrow>
      bind_res (header_int (lines ! i)) (\<lambda>nmark.
      bind_res (read_markers ndime lines (nat nmark) (i + 1) []) (\<lambda>markers.
        Inr (ndime, pts, vol_conns, vol_ctypes, markers)))))))))"

section \<open>Vocabulary of the statements\<close>

text \<open>
  What the statements below speak of, beside the functions of the code: the elements a
  compaction keeps, the set of point indices they reference, the rank of an index in a
  set (the number of smaller members), and the coordinates the points array holds at an
  index.
\<close>

definition surface_kept :: "int list list \<Rightarrow> int list list" where
  "surface_kept elems = filter (\<lambda>e. e \<noteq> [] \<and> (hd e = 5 \<or> hd e = 9)) elems"

definition line_kept :: "int list list \<Rightarrow> int list list" where
  "line_kept elems = filter (\<lambda>e. e \<noteq> [] \<and> hd e = 3 \<and> 3 \<le> length e) elems"

definition line_typed :: "int list list \<Rightarrow> int list list" where
  "line_typed elems = filter (\<lambda>e. e \<noteq> [] \<and> hd e = 3) elems"

definition referenced :: "int list list \<Rightarrow> int set" where
  "referenced conns = \<Union> (set (map set conns))"

definition rank_in :: "int set \<Rightarrow> int \<Rightarrow> int" where
  "rank_in S n = int (card {m \<in> S. m < n})"

definition coords :: "'r list list \<Rightarrow> int \<Rightarrow> error + ('r \<times> 'r \<times> 'r)" where
  "coords global_pts j = bind_res (np_row global_pts j) point3"

definition surface_used :: "int list list \<Rightarrow> int set" where
  "surface_used elems = referenced (map tl (surface_kept elems))"

definition line_used :: "int list list \<Rightarrow> int set" where
  "line_used elems = referenced (map (take 2 \<circ> tl) (line_kept elems))"

text \<open>The point sequence of a compaction result, whatever the result is.\<close>

definition result_points ::
  "error + 'r ugrid option \<Rightarrow> error + ('r \<times> 'r \<times> 'r) list option" where
  "result_points res = map_sum id (map_option ug_points) res"

definition xyz_at :: "'r list list \<Rightarrow> int \<Rightarrow> 'r \<times> 'r \<times> 'r" where
  "xyz_at global_pts j =
     (global_pts ! nat j ! 0, global_pts ! nat j ! 1, global_pts ! nat j ! 2)"



definition expected_nodes :: "int \<Rightarrow> nat option" where
  "expected_nodes t =
     (if t = 3 then Some 2 else if t = 5 then Some 3 else if t = 9 then Some 4
      else if t = 10 then Some 4 else if t = 12 then Some 8 else if t = 13 then Some 6
      else if t = 14 then Some 5 else None)"

definition recognized :: "int list \<Rightarrow> bool" where
  "recognized r \<longleftrightarrow> expected_nodes (hd r) \<noteq> None"

definition corrected_record :: "int \<Rightarrow> int list \<Rightarrow> int list" where
  "corrected_record ndime r =
     (case r of
        [] \<Rightarrow> []
      | t # nodes \<Rightarrow>
          (case expected_nodes t of
             None \<Rightarrow> r
           | Some n \<Rightarrow> if ndime = 2 then t # take n nodes else r))"

definition record_at :: "string list \<Rightarrow> nat \<Rightarrow> error + int list" where
  "record_at lines j = bind_res (nth_res lines j) int_fields"

definition volume_record_at :: "string list \<Rightarrow> nat \<Rightarrow> error + int list" where
  "volume_record_at lines j =
     bind_res (record_at lines j) (\<lambda>r. if r = [] then Inl IndexError else Inr r)"

definition volume_records :: "string list \<Rightarrow> error + int list list" where
  "volume_records lines =
     (case find_line lines ''NELEM'' of
        None \<Rightarrow> Inr []
      | Some i \<Rightarrow>
          bind_res (header_int (lines ! i)) (\<lambda>nelem.
            map_res (\<lambda>k. volume_record_at lines (i + 1 + k)) [0..<nat nelem]))"

definition marker_records :: "string list \<Rightarrow> nat \<Rightarrow> error + int list list" where
  "marker_records lines q =
     bind_res (nth_res lines (q + 1)) (\<lambda>l.
     bind_res (header_int l) (\<lambda>ne.
       map_res (\<lambda>j. record_at lines (q + 2 + j)) [0..<nat ne]))"

definition block_at :: "int \<Rightarrow> string list \<Rightarrow> nat \<Rightarrow> error + (string \<times> int list list)" where
  "block_at ndime lines q =
     bind_res (nth_res lines q) (\<lambda>l.
     bind_res (eq_field l) (\<lambda>t.
     bind_res (marker_records lines q) (\<lambda>recs.
       Inr (strip t, map (corrected_record ndime) recs))))"

fun marker_blocks ::
  "int \<Rightarrow> string list \<Rightarrow> nat \<Rightarrow> nat \<Rightarrow> error + (string \<times> int list list) list" where
  "marker_blocks ndime lines 0 q = Inr []"
| "marker_blocks ndime lines (Suc n) q =
     bind_res (block_at ndime lines q) (\<lambda>b.
     bind_res (marker_blocks ndime lines n (q + 2 + length (snd b))) (\<lambda>bs.
       Inr (b # bs)))"

definition store_all ::
  "(string \<times> int list list) list \<Rightarrow> (string \<times> int list list) list
     \<Rightarrow> (string \<times> int list list) list" where
  "store_all bs markers = fold (\<lambda>b. AList.update (fst b) (snd b)) bs markers"

text \<open>
  An instance of the parameter \<open>pf\<close> for the examples: coordinates written as integer
  literals, on which \<open>float()\<close> and \<open>int()\<close> read the same number.
\<close>

definition float_literal :: "string \<Rightarrow> int option" where
  "float_literal s = (case py_int s of Inl e \<Rightarrow> None | Inr n \<Rightarrow> Some n)"

section \<open>Results and comprehensions\<close>

lemma bind_res_simps [simp]:
  "bind_res (Inl e) f = Inl e" "bind_res (Inr x) f = f x"
  by (simp_all add: bind_res_def)

lemma bind_res_Inr_iff: "bind_res m f = Inr y \<longleftrightarrow> (\<exists>x. m = Inr x \<and> f x = Inr y)"
  by (cases m) simp_all

lemma map_res_Inr_iff: "map_res f xs = Inr ys \<longleftrightarrow> map f xs = map Inr ys"
proof (induction xs arbitrary: ys)
  case Nil
  then show ?case by auto
next
  case (Cons x xs)
  show ?case
  proof (cases ys)
    case Nil
    then show ?thesis by (auto simp: bind_res_Inr_iff)
  next
    case (Cons y ys')
    then show ?thesis using Cons.IH [of ys'] by (auto simp: bind_res_Inr_iff)
  qed
qed

lemma map_res_total: "(\<And>x. x \<in> set xs \<Longrightarrow> f x = Inr (g x)) \<Longrightarrow> map_res f xs = Inr (map g xs)"
  by (simp add: map_res_Inr_iff)

lemma fold_old2new_notin:
  "n \<notin> set xs \<Longrightarrow> fold (\<lambda>(i, old) d. d(old \<mapsto> int i)) (enumerate k xs) d n = d n"
  by (induction xs arbitrary: k d) auto

lemma fold_old2new_nth:
  "distinct xs \<Longrightarrow> i < length xs \<Longrightarrow>
   fold (\<lambda>(i, old) d. d(old \<mapsto> int i)) (enumerate k xs) d (xs ! i) = Some (int (k + i))"
proof (induction xs arbitrary: k d i)
  case Nil
  then show ?case by simp
next
  case (Cons x xs)
  show ?case
  proof (cases i)
    case 0
    have "fold (\<lambda>(i, old) d. d(old \<mapsto> int i)) (enumerate (Suc k) xs) (d(x \<mapsto> int k)) x
          = (d(x \<mapsto> int k)) x"
      using Cons.prems by (intro fold_old2new_notin) simp
    then have "fold (\<lambda>(i, old) d. d(old \<mapsto> int i)) (enumerate (Suc k) xs) (d(x \<mapsto> int k)) x
          = Some (int k)"
      by simp
    with 0 show ?thesis by (simp del: fun_upd_apply)
  next
    case (Suc j)
    with Cons.prems Cons.IH [of j "Suc k" "d(x \<mapsto> int k)"] show ?thesis
      by (simp del: fun_upd_apply)
  qed
qed

lemma old2new_of_nth:
  "distinct xs \<Longrightarrow> i < length xs \<Longrightarrow> old2new_of xs (xs ! i) = Some (int i)"
  using fold_old2new_nth [of xs i 0 Map.empty] by (simp add: old2new_of_def)

lemma rank_in_nth:
  assumes "sorted_wrt (<) xs" "i < length xs"
  shows "rank_in (set xs) (xs ! i) = int i"
proof -
  have mono: "\<And>a b. a < b \<Longrightarrow> b < length xs \<Longrightarrow> xs ! a < xs ! b"
    using assms(1) by (simp add: sorted_wrt_iff_nth_less)
  have "{m \<in> set xs. m < xs ! i} = set (take i xs)"
  proof (intro set_eqI iffI)
    fix m assume "m \<in> {m \<in> set xs. m < xs ! i}"
    then obtain j where j: "j < length xs" "m = xs ! j" "xs ! j < xs ! i"
      by (auto simp: in_set_conv_nth)
    have "j < i"
    proof (rule ccontr)
      assume "\<not> j < i"
      then have "i = j \<or> i < j" by arith
      then show False using mono [of i j] j by auto
    qed
    then show "m \<in> set (take i xs)"
      using j assms(2) by (auto simp: in_set_conv_nth)
  next
    fix m assume "m \<in> set (take i xs)"
    then obtain j where "j < i" "m = xs ! j"
      using assms(2) by (auto simp: in_set_conv_nth)
    then show "m \<in> {m \<in> set xs. m < xs ! i}"
      using mono [of j i] assms(2) by auto
  qed
  moreover have "distinct (take i xs)"
    using assms(1) by (simp add: strict_sorted_iff)
  ultimately show ?thesis
    using assms(2) by (simp add: rank_in_def distinct_card)
qed

lemma old2new_rank:
  assumes "finite S" "n \<in> S"
  shows "old2new_of (sorted_list_of_set S) n = Some (rank_in S n)"
proof -
  let ?u = "sorted_list_of_set S"
  have u: "sorted_wrt (<) ?u" "set ?u = S" "distinct ?u"
    using assms(1) by simp_all
  then obtain i where i: "i < length ?u" "?u ! i = n"
    using assms(2) by (metis in_set_conv_nth)
  have "old2new_of ?u (?u ! i) = Some (int i)"
    using u(3) i(1) by (rule old2new_of_nth)
  moreover have "rank_in (set ?u) (?u ! i) = int i"
    using u(1) i(1) by (rule rank_in_nth)
  ultimately show ?thesis using i(2) u(2) by simp
qed

lemma rank_in_bounds:
  assumes "finite S" "n \<in> S"
  shows "0 \<le> rank_in S n" "rank_in S n < int (card S)"
        "sorted_list_of_set S ! nat (rank_in S n) = n"
proof -
  let ?u = "sorted_list_of_set S"
  have u: "sorted_wrt (<) ?u" "set ?u = S" "distinct ?u" "length ?u = card S"
    using assms(1) by simp_all
  then obtain i where i: "i < length ?u" "?u ! i = n"
    using assms(2) by (metis in_set_conv_nth)
  have r: "rank_in S n = int i"
    using rank_in_nth [OF u(1) i(1)] i(2) u(2) by simp
  show "0 \<le> rank_in S n" by (simp add: r)
  show "rank_in S n < int (card S)" using i(1) u(4) by (simp add: r)
  show "?u ! nat (rank_in S n) = n" using i(2) by (simp add: r)
qed

lemma finite_referenced [simp]: "finite (referenced conns)"
  by (simp add: referenced_def)

lemma referenced_append [simp]: "referenced (xs @ ys) = referenced xs \<union> referenced ys"
  by (simp add: referenced_def)

lemma referenced_simps [simp]: "referenced [] = {}" "referenced (c # cs) = set c \<union> referenced cs"
  by (simp_all add: referenced_def)

lemma dict_get_VTK [simp]:
  "dict_get (map_of VTK_TYPE_MAP) 3 = Inr 3"
  "dict_get (map_of VTK_TYPE_MAP) 5 = Inr 5"
  "dict_get (map_of VTK_TYPE_MAP) 9 = Inr 9"
  by (simp_all add: dict_get_def VTK_TYPE_MAP_def)

lemma surface_loop_eq:
  "surface_loop elems (used, conns, ctypes) =
     Inr (used \<union> referenced (map tl (surface_kept elems)),
          conns @ map tl (surface_kept elems), ctypes @ map hd (surface_kept elems))"
  by (induction elems arbitrary: used conns ctypes)
     (auto simp: surface_kept_def Let_def Un_assoc)

lemma boundary_loop_eq:
  "boundary_loop elems (used, conns, ctypes) =
     Inr (used \<union> referenced (map (take 2 \<circ> tl) (line_kept elems)),
          conns @ map (take 2 \<circ> tl) (line_kept elems), ctypes @ map hd (line_kept elems))"
  by (induction elems arbitrary: used conns ctypes)
     (auto simp: line_kept_def Let_def Un_assoc)

lemma compact_and_build_None_iff:
  "compact_and_build global_pts S conns ctypes = Inr None \<longleftrightarrow> conns = []"
  by (auto simp: compact_and_build_def Let_def bind_res_Inr_iff)

lemma map_bind_res_Inr:
  "map f xs = map Inr ys \<Longrightarrow> map g ys = map Inr zs \<Longrightarrow>
   map (\<lambda>x. bind_res (f x) g) xs = map Inr zs"
proof (induction xs arbitrary: ys zs)
  case Nil
  then show ?case by auto
next
  case (Cons x xs)
  then show ?case by (cases ys; cases zs) auto
qed

lemma dict_get_old2new:
  "finite S \<Longrightarrow> n \<in> S \<Longrightarrow> dict_get (old2new_of (sorted_list_of_set S)) n = Inr (rank_in S n)"
  by (simp add: dict_get_def old2new_rank)

lemma remap_conns:
  assumes "finite S" "referenced conns \<subseteq> S"
  shows "map_res (\<lambda>c. map_res (\<lambda>n. dict_get (old2new_of (sorted_list_of_set S)) n) c) conns
         = Inr (map (map (rank_in S)) conns)"
proof (rule map_res_total)
  fix c assume "c \<in> set conns"
  then have "set c \<subseteq> S" using assms(2) by (auto simp: referenced_def)
  then show "map_res (\<lambda>n. dict_get (old2new_of (sorted_list_of_set S)) n) c = Inr (map (rank_in S) c)"
    using assms(1) by (intro map_res_total dict_get_old2new) auto
qed

lemma build_ugrid_Inr_iff:
  "build_ugrid points conns ctypes = Inr g \<longleftrightarrow>
     map point3 points = map Inr (ug_points g) \<and>
     ug_cells g = map (\<lambda>(conn, ct). (ct, conn)) (zip conns ctypes)"
  by (cases g) (auto simp: build_ugrid_def bind_res_Inr_iff map_res_Inr_iff)

lemma compact_and_build_Some:
  assumes "compact_and_build global_pts S conns ctypes = Inr (Some g)"
      and "finite S" "referenced conns \<subseteq> S"
  shows "ug_cells g = map (\<lambda>(c, ct). (ct, map (rank_in S) c)) (zip conns ctypes)"
    and "map (coords global_pts) (sorted_list_of_set S) = map Inr (ug_points g)"
proof -
  let ?u = "sorted_list_of_set S"
  have ne: "conns \<noteq> []"
    using assms(1) by (auto simp: compact_and_build_def)
  from assms(1) ne obtain local_pts local_conns where
    lp: "np_take global_pts ?u = Inr local_pts" and
    lc: "map_res (\<lambda>c. map_res (\<lambda>n. dict_get (old2new_of ?u) n) c) conns = Inr local_conns" and
    bg: "build_ugrid local_pts local_conns ctypes = Inr g"
    by (auto simp: compact_and_build_def Let_def bind_res_Inr_iff)
  have lc': "local_conns = map (map (rank_in S)) conns"
    using lc remap_conns [OF assms(2,3)] by simp
  from bg have pts: "map point3 local_pts = map Inr (ug_points g)"
    and cells: "ug_cells g = map (\<lambda>(conn, ct). (ct, conn)) (zip local_conns ctypes)"
    by (simp_all add: build_ugrid_Inr_iff)
  show "ug_cells g = map (\<lambda>(c, ct). (ct, map (rank_in S) c)) (zip conns ctypes)"
    by (simp add: cells lc' zip_map1 case_prod_unfold)
  from lp have "map (np_row global_pts) ?u = map Inr local_pts"
    by (simp add: np_take_def map_res_Inr_iff)
  from map_bind_res_Inr [OF this pts]
  show "map (coords global_pts) ?u = map Inr (ug_points g)"
    by (simp add: coords_def [abs_def])
qed

lemma compact_and_build_total:
  assumes "conns \<noteq> []" "finite S" "referenced conns \<subseteq> S"
      and "\<forall>j \<in> S. 0 \<le> j \<and> j < int (length global_pts)"
      and "\<forall>p \<in> set global_pts. 3 \<le> length p"
  shows "compact_and_build global_pts S conns ctypes =
         Inr (Some \<lparr>ug_points = map (xyz_at global_pts) (sorted_list_of_set S),
                    ug_cells = map (\<lambda>(c, ct). (ct, map (rank_in S) c)) (zip conns ctypes)\<rparr>)"
proof -
  let ?u = "sorted_list_of_set S"
  have "np_take global_pts ?u = Inr (map (\<lambda>j. global_pts ! nat j) ?u)"
    unfolding np_take_def using assms(2,4)
    by (intro map_res_total) (auto simp: np_row_def)
  moreover have "map_res point3 (map (\<lambda>j. global_pts ! nat j) ?u)
        = Inr (map (xyz_at global_pts) ?u)"
  proof -
    have "\<And>j. j \<in> set ?u \<Longrightarrow> point3 (global_pts ! nat j) = Inr (xyz_at global_pts j)"
    proof -
      fix j assume "j \<in> set ?u"
      then have "nat j < length global_pts" using assms(2,4) by auto
      then have "3 \<le> length (global_pts ! nat j)" using assms(5) by simp
      then show "point3 (global_pts ! nat j) = Inr (xyz_at global_pts j)"
        by (simp add: point3_def xyz_at_def)
    qed
    then show ?thesis by (simp add: map_res_Inr_iff)
  qed
  ultimately show ?thesis
    using assms(1) remap_conns [OF assms(2,3)]
    by (simp add: compact_and_build_def Let_def build_ugrid_def zip_map1 case_prod_unfold)
qed

lemma build_surface_compacted_eq:
  "build_surface_compacted global_pts elems =
     compact_and_build global_pts (surface_used elems) (map tl (surface_kept elems))
       (map hd (surface_kept elems))"
  by (simp add: build_surface_compacted_def surface_loop_eq surface_used_def)

lemma build_boundary_compacted_2d_eq:
  "build_boundary_compacted_2d global_pts elems =
     compact_and_build global_pts (line_used elems) (map (take 2 \<circ> tl) (line_kept elems))
       (map hd (line_kept elems))"
  by (simp add: build_boundary_compacted_2d_def boundary_loop_eq line_used_def)

lemma sorted_list_of_set_strict:
  "sorted_wrt (<) (xs :: int list) \<Longrightarrow> sorted_list_of_set (set xs) = xs"
  by (simp add: sorted_list_of_set.idem_if_sorted_distinct strict_sorted_iff)

lemma map_zip_cells:
  "map (\<lambda>(c, ct). (ct, f c)) (zip (map a K) (map b K)) = map (\<lambda>e. (b e, f (a e))) K"
  by (induction K) auto

lemma compact_and_build_length:
  assumes "compact_and_build global_pts S conns ctypes = Inr (Some g)"
      and "finite S" "referenced conns \<subseteq> S"
  shows "length (ug_points g) = card S"
proof -
  have "length (map (coords global_pts) (sorted_list_of_set S)) = length (map Inr (ug_points g) :: (error + _) list)"
    using compact_and_build_Some(2) [OF assms] by simp
  then show ?thesis using assms(2) by simp
qed

lemma compact_and_build_round_trip:
  assumes "compact_and_build global_pts S conns ctypes = Inr (Some g)"
      and "finite S" "referenced conns \<subseteq> S" "length ctypes = length conns"
  shows "\<forall>cell \<in> set (ug_cells g). \<forall>r \<in> set (snd cell). 0 \<le> r \<and> r < int (length (ug_points g))"
    and "map (\<lambda>cell. map (\<lambda>r. sorted_list_of_set S ! nat r) (snd cell)) (ug_cells g) = conns"
proof -
  have cells: "ug_cells g = map (\<lambda>(c, ct). (ct, map (rank_in S) c)) (zip conns ctypes)"
    using compact_and_build_Some(1) [OF assms(1-3)] .
  have len: "length (ug_points g) = card S"
    using compact_and_build_length [OF assms(1-3)] .
  have inS: "\<And>c n. c \<in> set conns \<Longrightarrow> n \<in> set c \<Longrightarrow> n \<in> S"
    using assms(3) by (auto simp: referenced_def)
  show "\<forall>cell \<in> set (ug_cells g). \<forall>r \<in> set (snd cell). 0 \<le> r \<and> r < int (length (ug_points g))"
  proof (intro ballI)
    fix cell r assume "cell \<in> set (ug_cells g)" "r \<in> set (snd cell)"
    then obtain c ct where "(c, ct) \<in> set (zip conns ctypes)" "r \<in> set (map (rank_in S) c)"
      by (auto simp: cells)
    then obtain n where "c \<in> set conns" "n \<in> set c" "r = rank_in S n"
      by (auto dest: set_zip_leftD)
    then show "0 \<le> r \<and> r < int (length (ug_points g))"
      using rank_in_bounds(1,2) [OF assms(2) inS] len by simp
  qed
  have "map (\<lambda>cell. map (\<lambda>r. sorted_list_of_set S ! nat r) (snd cell)) (ug_cells g)
        = map (\<lambda>(c, ct). map (\<lambda>n. sorted_list_of_set S ! nat (rank_in S n)) c) (zip conns ctypes)"
    by (simp add: cells case_prod_unfold comp_def)
  also have "\<dots> = map fst (zip conns ctypes)"
  proof (rule map_cong [OF refl])
    fix x assume "x \<in> set (zip conns ctypes)"
    then have "fst x \<in> set conns" using set_zip_leftD [of "fst x" "snd x" conns ctypes] by simp
    then have "map (\<lambda>n. sorted_list_of_set S ! nat (rank_in S n)) (fst x) = fst x"
      using rank_in_bounds(3) [OF assms(2) inS] by (simp add: map_idI)
    then show "(case x of (c, ct) \<Rightarrow> map (\<lambda>n. sorted_list_of_set S ! nat (rank_in S n)) c) = fst x"
      by (simp add: case_prod_unfold)
  qed
  also have "\<dots> = conns" using assms(4) by simp
  finally show "map (\<lambda>cell. map (\<lambda>r. sorted_list_of_set S ! nat r) (snd cell)) (ug_cells g) = conns" .
qed

lemma old2new_round_trip:
  assumes "finite S" "n \<in> S"
  shows "\<exists>r. old2new_of (sorted_list_of_set S) n = Some r \<and> 0 \<le> r \<and>
             r < int (length (sorted_list_of_set S)) \<and> sorted_list_of_set S ! nat r = n"
  using old2new_rank [OF assms] rank_in_bounds [OF assms] assms(1) by simp

lemma result_points_compact_and_build:
  assumes "finite S" "referenced conns \<subseteq> S"
  shows "result_points (compact_and_build global_pts S conns ctypes) =
         (if conns = [] then Inr None
          else bind_res (np_take global_pts (sorted_list_of_set S)) (\<lambda>local_pts.
               bind_res (map_res point3 local_pts) (\<lambda>vtk_pts. Inr (Some vtk_pts))))"
proof (cases "conns = []")
  case True
  then show ?thesis by (simp add: compact_and_build_def result_points_def)
next
  case False
  show ?thesis
  proof (cases "np_take global_pts (sorted_list_of_set S)")
    case (Inl e)
    then show ?thesis using False
      by (simp add: compact_and_build_def result_points_def Let_def)
  next
    case (Inr local_pts)
    then show ?thesis using False remap_conns [OF assms]
      by (cases "map_res point3 local_pts")
         (simp_all add: compact_and_build_def result_points_def Let_def build_ugrid_def)
  qed
qed

lemma surface_used_mset:
  assumes "mset elems' = mset elems"
  shows "surface_used elems' = surface_used elems"
    and "surface_kept elems' = [] \<longleftrightarrow> surface_kept elems = []"
proof -
  have "set elems' = set elems" using assms by (rule mset_eq_setD)
  then show "surface_used elems' = surface_used elems"
    and "surface_kept elems' = [] \<longleftrightarrow> surface_kept elems = []"
    by (simp_all add: surface_used_def surface_kept_def referenced_def filter_empty_conv)
qed

lemma line_used_mset:
  assumes "mset elems' = mset elems"
  shows "line_used elems' = line_used elems"
    and "line_kept elems' = [] \<longleftrightarrow> line_kept elems = []"
proof -
  have "set elems' = set elems" using assms by (rule mset_eq_setD)
  then show "line_used elems' = line_used elems"
    and "line_kept elems' = [] \<longleftrightarrow> line_kept elems = []"
    by (simp_all add: line_used_def line_kept_def referenced_def filter_empty_conv)
qed

lemma strict_sorted_is_sorted_list_of_set:
  "sorted_wrt (<) (used :: int list) \<Longrightarrow> set used = S \<Longrightarrow> used = sorted_list_of_set S"
  using sorted_list_of_set_strict by auto

section \<open>The loops of the reader\<close>

lemma SU2_NNODES_expected: "map_of SU2_NNODES t = expected_nodes t"
  by (simp add: SU2_NNODES_def expected_nodes_def)

lemma VTK_TYPE_MAP_expected:
  "map_of VTK_TYPE_MAP t = (if expected_nodes t = None then None else Some t)"
  by (simp add: VTK_TYPE_MAP_def expected_nodes_def)

lemma bind_res_assoc:
  "bind_res (bind_res m f) g = bind_res m (\<lambda>x. bind_res (f x) g)"
  by (cases m) simp_all

lemma map_res_map: "map_res f (map g xs) = map_res (\<lambda>x. f (g x)) xs"
  by (induction xs) simp_all

lemma map_res_length: "map_res f xs = Inr ys \<Longrightarrow> length ys = length xs"
  using map_res_Inr_iff [of f xs ys] by (metis length_map)

lemma map_res_upt_Suc:
  "map_res f [0..<Suc n] =
     bind_res (f 0) (\<lambda>y. bind_res (map_res (\<lambda>j. f (Suc j)) [0..<n]) (\<lambda>ys. Inr (y # ys)))"
proof -
  have "[0..<Suc n] = 0 # map Suc [0..<n]"
    by (simp add: map_Suc_upt upt_conv_Cons)
  then show ?thesis by (simp add: map_res_map)
qed

lemma read_elems_eq:
  "read_elems ndime lines i_elem ks (vol_conns, vol_ctypes) =
     bind_res (map_res (\<lambda>k. volume_record_at lines (i_elem + 1 + k)) ks) (\<lambda>recs.
       Inr (vol_conns @ map (\<lambda>r. tl (corrected_record ndime r)) (filter recognized recs),
            vol_ctypes @ map hd (filter recognized recs)))"
proof (induction ks arbitrary: vol_conns vol_ctypes)
  case Nil
  then show ?case by simp
next
  case (Cons k ks)
  show ?case
  proof (cases "nth_res lines (i_elem + 1 + k)")
    case (Inl e)
    then show ?thesis by (simp add: volume_record_at_def record_at_def)
  next
    case l: (Inr l)
    show ?thesis
    proof (cases "int_fields l")
      case (Inl e)
      then show ?thesis using l by (simp add: volume_record_at_def record_at_def)
    next
      case p: (Inr parts)
      show ?thesis
      proof (cases parts)
        case Nil
        then show ?thesis using l p
          by (simp add: volume_record_at_def record_at_def nth_res_def)
      next
        case (Cons t nodes)
        have v: "volume_record_at lines (i_elem + 1 + k) = Inr (t # nodes)"
          using l p Cons by (simp add: volume_record_at_def record_at_def)
        show ?thesis
        proof (cases "expected_nodes t")
          case None
          then show ?thesis using l p Cons v Cons.IH
            by (simp add: nth_res_def VTK_TYPE_MAP_expected recognized_def bind_res_assoc)
        next
          case (Some n)
          then show ?thesis using l p Cons v Cons.IH
            by (simp add: nth_res_def VTK_TYPE_MAP_expected SU2_NNODES_expected
                  recognized_def dict_get_def corrected_record_def bind_res_assoc)
        qed
      qed
    qed
  qed
qed

lemma marker_elems_eq:
  "marker_elems ndime lines n p elems =
     bind_res (map_res (\<lambda>j. record_at lines (p + j)) [0..<n]) (\<lambda>recs.
       Inr (p + n, elems @ map (corrected_record ndime) recs))"
proof (induction n arbitrary: p elems)
  case 0
  then show ?case by simp
next
  case (Suc n)
  have c: "\<And>e. (if ndime = 2 \<and> e \<noteq> [] \<and> map_of SU2_NNODES (hd e) \<noteq> None
                 then take (1 + the (map_of SU2_NNODES (hd e))) e else e) = corrected_record ndime e"
    by (auto simp: corrected_record_def SU2_NNODES_expected split: list.splits option.splits)
  have step: "marker_elems ndime lines (Suc n) p elems =
      bind_res (nth_res lines p) (\<lambda>l. bind_res (int_fields l) (\<lambda>e.
        marker_elems ndime lines n (p + 1) (elems @ [corrected_record ndime e])))"
    unfolding marker_elems.simps Let_def c ..
  show ?case
    unfolding step
    by (cases "nth_res lines p")
       (simp_all add: map_res_upt_Suc record_at_def Suc.IH bind_res_assoc del: upt_Suc)
qed

lemma read_markers_eq:
  "read_markers ndime lines n q markers =
     bind_res (marker_blocks ndime lines n q) (\<lambda>bs. Inr (store_all bs markers))"
proof (induction n arbitrary: q markers)
  case 0
  then show ?case by (simp add: store_all_def)
next
  case (Suc n)
  show ?case
  proof (cases "block_at ndime lines q")
    case (Inl e)
    then show ?thesis
      by (auto simp: block_at_def marker_records_def marker_elems_eq bind_res_def Let_def
          split: sum.splits)
  next
    case (Inr b)
    then obtain l t l' ne recs where
      l: "nth_res lines q = Inr l" and t: "eq_field l = Inr t" and
      l': "nth_res lines (q + 1) = Inr l'" and ne: "header_int l' = Inr ne" and
      recs: "map_res (\<lambda>j. record_at lines (q + 2 + j)) [0..<nat ne] = Inr recs" and
      b: "b = (strip t, map (corrected_record ndime) recs)"
      by (auto simp: block_at_def marker_records_def bind_res_Inr_iff)
    have len: "length recs = nat ne" using map_res_length [OF recs] by simp
    show ?thesis
      using Inr l t l' ne recs len
      by (simp add: b marker_elems_eq Suc.IH Let_def store_all_def bind_res_assoc)
  qed
qed

lemma read_volume_eq:
  "read_volume ndime lines =
     bind_res (volume_records lines) (\<lambda>recs.
       Inr (map (\<lambda>r. tl (corrected_record ndime r)) (filter recognized recs),
            map hd (filter recognized recs)))"
  by (cases "find_line lines ''NELEM''")
     (auto simp: read_volume_def volume_records_def read_elems_eq bind_res_def split: sum.splits)

lemma read_su2_Inr_iff:
  "read_su2 pf f = Inr (ndime, pts, vol_conns, vol_ctypes, markers) \<longleftrightarrow>
     (\<exists>i1 i2 npoin pts0 i3 nmark.
        find_line (read_lines f) ''NDIME'' = Some i1 \<and>
        header_int (read_lines f ! i1) = Inr ndime \<and>
        find_line (read_lines f) ''NPOIN'' = Some i2 \<and>
        header_int (read_lines f ! i2) = Inr npoin \<and>
        np_zeros npoin = Inr pts0 \<and>
        read_points pf ndime (read_lines f) i2 [0..<nat npoin] pts0 = Inr pts \<and>
        read_volume ndime (read_lines f) = Inr (vol_conns, vol_ctypes) \<and>
        find_line (read_lines f) ''NMARK'' = Some i3 \<and>
        header_int (read_lines f ! i3) = Inr nmark \<and>
        read_markers ndime (read_lines f) (nat nmark) (i3 + 1) [] = Inr markers)"
  by (auto simp: read_su2_def Let_def bind_res_Inr_iff split: option.splits)

section \<open>The marker dictionary\<close>

lemma store_all_simps [simp]:
  "store_all [] m = m"
  "store_all (b # bs) m = store_all bs (AList.update (fst b) (snd b) m)"
  by (simp_all add: store_all_def)

lemma map_of_store_all:
  "map_of (store_all bs m) tag =
     (if tag \<in> fst ` set bs then Some (snd (last (filter (\<lambda>b. fst b = tag) bs)))
      else map_of m tag)"
proof (induction bs arbitrary: m)
  case Nil
  then show ?case by simp
next
  case (Cons b bs)
  show ?case
  proof (cases "tag \<in> fst ` set bs")
    case True
    then have "filter (\<lambda>b. fst b = tag) bs \<noteq> []"
      by (auto simp: filter_empty_conv)
    then show ?thesis using True Cons.IH by simp
  next
    case False
    then have e: "filter (\<lambda>b. fst b = tag) bs = []"
      by (auto simp: filter_empty_conv)
    show ?thesis
    proof (cases "fst b = tag")
      case True
      then show ?thesis using False e Cons.IH by (simp add: update_conv')
    next
      case ne: False
      then show ?thesis using False e Cons.IH by (auto simp: update_conv')
    qed
  qed
qed

lemma distinct_store_all:
  "distinct (map fst m) \<Longrightarrow> distinct (map fst (store_all bs m))"
  by (induction bs arbitrary: m) (simp_all add: distinct_update)

lemma keys_store_all: "fst ` set (store_all bs m) = fst ` set m \<union> fst ` set bs"
  by (induction bs arbitrary: m) (auto simp: dom_update)

lemma set_update_subset: "set (AList.update k v al) \<subseteq> insert (k, v) (set al)"
  by (induction al) auto

lemma set_store_all: "set (store_all bs m) \<subseteq> set m \<union> set bs"
proof (induction bs arbitrary: m)
  case Nil
  then show ?case by simp
next
  case (Cons b bs)
  have "set (store_all bs (AList.update (fst b) (snd b) m))
        \<subseteq> set (AList.update (fst b) (snd b) m) \<union> set bs"
    by (rule Cons.IH)
  also have "\<dots> \<subseteq> insert b (set m) \<union> set bs"
    using set_update_subset [of "fst b" "snd b" m] by auto
  finally show ?case by auto
qed

lemma single_entry:
  "distinct (map fst xs) \<Longrightarrow> tag \<in> fst ` set xs \<Longrightarrow> length (filter (\<lambda>b. fst b = tag) xs) = 1"
proof (induction xs)
  case Nil
  then show ?case by simp
next
  case (Cons x xs)
  show ?case
  proof (cases "fst x = tag")
    case True
    have "fst x \<notin> fst ` set xs" using Cons.prems(1) by simp
    then have "filter (\<lambda>b. fst b = tag) xs = []"
      using True by (auto simp: filter_empty_conv intro: rev_image_eqI)
    then show ?thesis using True by simp
  next
    case False
    then show ?thesis using Cons by auto
  qed
qed

lemma marker_blocks_block_at:
  "marker_blocks ndime lines n q = Inr bs \<Longrightarrow> b \<in> set bs \<Longrightarrow>
   \<exists>q'. block_at ndime lines q' = Inr b"
proof (induction n arbitrary: q bs)
  case 0
  then show ?case by simp
next
  case (Suc n)
  from Suc.prems(1) obtain b0 bs0 where
    b0: "block_at ndime lines q = Inr b0" and
    bs0: "marker_blocks ndime lines n (q + 2 + length (snd b0)) = Inr bs0" and
    bs: "bs = b0 # bs0"
    by (auto simp: bind_res_Inr_iff)
  show ?case
  proof (cases "b = b0")
    case True
    then show ?thesis using b0 by blast
  next
    case False
    then have "b \<in> set bs0" using Suc.prems(2) bs by simp
    then show ?thesis using Suc.IH [OF bs0] by blast
  qed
qed

lemma block_at_records:
  "block_at ndime lines q = Inr b \<Longrightarrow>
   \<exists>t recs. q < length lines \<and> eq_field (lines ! q) = Inr t \<and> fst b = strip t \<and>
             marker_records lines q = Inr recs \<and> snd b = map (corrected_record ndime) recs"
  by (auto simp: block_at_def bind_res_Inr_iff nth_res_def split: if_splits)

lemma hd_corrected_record: "hd (corrected_record ndime r) = hd r"
  by (simp add: corrected_record_def split: list.splits option.splits)

lemma read_su2_markers:
  assumes "read_su2 pf f = Inr (ndime, pts, vol_conns, vol_ctypes, markers)"
  shows "\<exists>i nmark blocks.
           find_line (read_lines f) ''NMARK'' = Some i \<and>
           header_int (read_lines f ! i) = Inr nmark \<and>
           marker_blocks ndime (read_lines f) (nat nmark) (i + 1) = Inr blocks \<and>
           markers = store_all blocks []"
  using assms by (auto simp: read_su2_Inr_iff read_markers_eq bind_res_Inr_iff)

lemma read_su2_volume:
  assumes "read_su2 pf f = Inr (ndime, pts, vol_conns, vol_ctypes, markers)"
  shows "\<exists>recs. volume_records (read_lines f) = Inr recs \<and>
           vol_conns = map (\<lambda>r. tl (corrected_record ndime r)) (filter recognized recs) \<and>
           vol_ctypes = map hd (filter recognized recs)"
  using assms by (auto simp: read_su2_Inr_iff read_volume_eq bind_res_Inr_iff)

lemma read_su2_marker_entry:
  assumes "read_su2 pf f = Inr (ndime, pts, vol_conns, vol_ctypes, markers)"
      and "b \<in> set markers"
  shows "\<exists>q recs. block_at ndime (read_lines f) q = Inr b \<and>
           marker_records (read_lines f) q = Inr recs \<and>
           snd b = map (corrected_record ndime) recs"
proof -
  from read_su2_markers [OF assms(1)] obtain i nmark blocks where
    blocks: "marker_blocks ndime (read_lines f) (nat nmark) (i + 1) = Inr blocks" and
    m: "markers = store_all blocks []"
    by blast
  have "b \<in> set blocks" using assms(2) set_store_all [of blocks "[]"] by (auto simp: m)
  from marker_blocks_block_at [OF blocks this] obtain q where
    q: "block_at ndime (read_lines f) q = Inr b" by blast
  from block_at_records [OF q] q show ?thesis by blast
qed

section \<open>Key and value lines\<close>











section \<open>The point loop\<close>

lemma read_points_Inr:
  assumes "read_points pf ndime lines i ks pts0 = Inr pts" "distinct ks"
  shows "length pts = length pts0 \<and>
         (\<forall>k. k \<notin> set ks \<longrightarrow> pts ! k = pts0 ! k) \<and>
         (\<forall>k \<in> set ks. k < length pts0 \<and> i + 1 + k < length lines \<and>
            (\<exists>xyz. map_res (py_float pf) (py_take ndime (split_ws (lines ! (i + 1 + k)))) = Inr xyz \<and>
                   assign_prefix ndime xyz (pts0 ! k) = Inr (pts ! k)))"
  using assms
proof (induction ks arbitrary: pts0)
  case Nil
  then show ?case by simp
next
  case (Cons k ks)
  from Cons.prems(1) obtain l xyz row row' where
    l: "nth_res lines (i + 1 + k) = Inr l" and
    xyz: "map_res (py_float pf) (py_take ndime (split_ws l)) = Inr xyz" and
    row: "nth_res pts0 k = Inr row" and
    row': "assign_prefix ndime xyz row = Inr row'" and
    rest: "read_points pf ndime lines i ks (pts0[k := row']) = Inr pts"
    by (auto simp: bind_res_Inr_iff)
  from l have lk: "i + 1 + k < length lines" "l = lines ! (i + 1 + k)"
    by (auto simp: nth_res_def split: if_splits)
  from row have rk: "k < length pts0" "row = pts0 ! k"
    by (auto simp: nth_res_def split: if_splits)
  from Cons.prems(2) have d: "distinct ks" "k \<notin> set ks" by simp_all
  note IH = Cons.IH [OF rest d(1)]
  have len: "length pts = length pts0" using IH by simp
  have same: "\<And>j. j \<notin> set ks \<Longrightarrow> pts ! j = (pts0[k := row']) ! j" using IH by blast
  have a: "\<forall>j. j \<notin> set (k # ks) \<longrightarrow> pts ! j = pts0 ! j"
    using same by auto
  have "pts ! k = row'" using same [OF d(2)] rk(1) by simp
  then have b: "k < length pts0 \<and> i + 1 + k < length lines \<and>
      (\<exists>xyz. map_res (py_float pf) (py_take ndime (split_ws (lines ! (i + 1 + k)))) = Inr xyz \<and>
             assign_prefix ndime xyz (pts0 ! k) = Inr (pts ! k))"
    using lk rk xyz row' by auto
  have c: "\<forall>j \<in> set ks. j < length pts0 \<and> i + 1 + j < length lines \<and>
      (\<exists>xyz. map_res (py_float pf) (py_take ndime (split_ws (lines ! (i + 1 + j)))) = Inr xyz \<and>
             assign_prefix ndime xyz (pts0 ! j) = Inr (pts ! j))"
  proof
    fix j assume j: "j \<in> set ks"
    then have "j \<noteq> k" using d(2) by auto
    then have "(pts0[k := row']) ! j = pts0 ! j" by simp
    then show "j < length pts0 \<and> i + 1 + j < length lines \<and>
      (\<exists>xyz. map_res (py_float pf) (py_take ndime (split_ws (lines ! (i + 1 + j)))) = Inr xyz \<and>
             assign_prefix ndime xyz (pts0 ! j) = Inr (pts ! j))"
      using IH j by auto
  qed
  show ?case using len a b c by simp
qed

lemma assign_prefix_zeros:
  fixes row :: "('a :: zero) list"
  assumes "assign_prefix ndime xyz [0, 0, 0] = Inr row"
  shows "length row = 3"
    and "ndime = 2 \<Longrightarrow> row ! 2 = 0"
    and "0 \<le> ndime \<Longrightarrow> length xyz = nat ndime \<Longrightarrow>
         nat ndime \<le> 3 \<and> row = xyz @ replicate (3 - nat ndime) 0"
proof -
  let ?w = "length (py_take ndime [0 :: 'a, 0, 0])"
  have "\<And>xs :: 'a list. length (py_take ndime xs) \<le> length xs"
    by (simp add: py_take_def)
  from this [of "[0, 0, 0]"] have w: "?w \<le> 3" by simp
  have r: "row = xyz @ drop ?w [0, 0, 0] \<and> length xyz = ?w \<or>
           row = replicate ?w (hd xyz) @ drop ?w [0, 0, 0]"
    using assms by (auto simp: assign_prefix_def Let_def split: if_splits)
  then show "length row = 3" using w by auto
  show "row ! 2 = 0" if "ndime = 2"
  proof -
    have "?w = 2" using that by (simp add: py_take_def)
    with r show ?thesis by (auto simp: nth_append numeral_2_eq_2)
  qed
  show "nat ndime \<le> 3 \<and> row = xyz @ replicate (3 - nat ndime) 0"
    if "0 \<le> ndime" "length xyz = nat ndime"
  proof -
    have w': "?w = min (nat ndime) 3" using that(1) by (simp add: py_take_def)
    have "length xyz = ?w"
    proof (rule ccontr)
      assume n: "length xyz \<noteq> ?w"
      then have "length xyz = 1" using assms by (auto simp: assign_prefix_def Let_def split: if_splits)
      with that(2) w' n show False by simp
    qed
    with that(2) w' have le: "nat ndime \<le> 3" by simp
    from \<open>length xyz = ?w\<close> assms have "row = xyz @ drop ?w [0, 0, 0]"
      by (simp add: assign_prefix_def Let_def)
    moreover have "drop (nat ndime) [0 :: 'a, 0, 0] = replicate (3 - nat ndime) 0"
      using le by (cases "nat ndime"; cases "nat ndime - 1"; cases "nat ndime - 2")
                  (auto simp: numeral_3_eq_3)
    ultimately show ?thesis using le w' by (simp add: min_def)
  qed
qed

section \<open>The exceptions of the reader\<close>

lemma bind_res_Inl_iff:
  "bind_res m f = Inl e \<longleftrightarrow> m = Inl e \<or> (\<exists>x. m = Inr x \<and> f x = Inl e)"
  by (cases m) simp_all

lemma bind_res_not_runtime:
  "m \<noteq> Inl (RuntimeError msg) \<Longrightarrow> (\<And>x. f x \<noteq> Inl (RuntimeError msg)) \<Longrightarrow>
   bind_res m f \<noteq> Inl (RuntimeError msg)"
  by (cases m) simp_all

lemma map_res_not_runtime:
  "(\<And>x. f x \<noteq> Inl (RuntimeError msg)) \<Longrightarrow> map_res f xs \<noteq> Inl (RuntimeError msg)"
  by (induction xs) (simp_all add: bind_res_not_runtime)

lemma nth_res_not_runtime [simp]: "nth_res xs i \<noteq> Inl (RuntimeError msg)"
  by (simp add: nth_res_def)

lemma py_int_not_runtime [simp]: "py_int s \<noteq> Inl (RuntimeError msg)"
  by (simp add: py_int_def Let_def split: option.splits)

lemma py_float_not_runtime [simp]: "py_float pf s \<noteq> Inl (RuntimeError msg)"
  by (simp add: py_float_def split: option.splits)

lemma header_int_not_runtime [simp]: "header_int l \<noteq> Inl (RuntimeError msg)"
  by (simp add: header_int_def eq_field_def bind_res_not_runtime)

lemma eq_field_not_runtime [simp]: "eq_field l \<noteq> Inl (RuntimeError msg)"
  by (simp add: eq_field_def)

lemma int_fields_not_runtime [simp]: "int_fields l \<noteq> Inl (RuntimeError msg)"
  by (simp add: int_fields_def map_res_not_runtime)

lemma np_zeros_not_runtime [simp]: "np_zeros n \<noteq> Inl (RuntimeError msg)"
  by (simp add: np_zeros_def)

lemma assign_prefix_not_runtime [simp]: "assign_prefix n xyz row \<noteq> Inl (RuntimeError msg)"
  by (simp add: assign_prefix_def Let_def)

lemma read_points_not_runtime [simp]:
  "read_points pf ndime lines i ks pts \<noteq> Inl (RuntimeError msg)"
  by (induction ks arbitrary: pts)
     (simp_all add: bind_res_not_runtime map_res_not_runtime)

lemma record_at_not_runtime [simp]: "record_at lines j \<noteq> Inl (RuntimeError msg)"
  by (simp add: record_at_def bind_res_not_runtime)

lemma read_volume_not_runtime [simp]: "read_volume ndime lines \<noteq> Inl (RuntimeError msg)"
  by (simp add: read_volume_eq volume_records_def volume_record_at_def
      bind_res_not_runtime map_res_not_runtime split: option.splits)

lemma block_at_not_runtime [simp]: "block_at ndime lines q \<noteq> Inl (RuntimeError msg)"
  by (simp add: block_at_def marker_records_def bind_res_not_runtime map_res_not_runtime)

lemma marker_blocks_not_runtime [simp]:
  "marker_blocks ndime lines n q \<noteq> Inl (RuntimeError msg)"
  by (induction n arbitrary: q) (simp_all add: bind_res_not_runtime)

lemma read_markers_not_runtime [simp]:
  "read_markers ndime lines n q markers \<noteq> Inl (RuntimeError msg)"
  by (simp add: read_markers_eq bind_res_not_runtime)

lemma read_su2_runtime:
  fixes pf :: "string \<Rightarrow> ('a :: zero) option"
  assumes "read_su2 pf f = Inl (RuntimeError msg)"
  shows "(msg = ''NDIME not found'' \<and> find_line (read_lines f) ''NDIME'' = None) \<or>
         (msg = ''NPOIN not found'' \<and> find_line (read_lines f) ''NPOIN'' = None \<and>
          (\<exists>i ndime. find_line (read_lines f) ''NDIME'' = Some i \<and>
             header_int (read_lines f ! i) = Inr ndime)) \<or>
         (msg = ''NMARK not found'' \<and> find_line (read_lines f) ''NMARK'' = None \<and>
          (\<exists>i ndime j npoin pts0 pts vol.
             find_line (read_lines f) ''NDIME'' = Some i \<and>
             header_int (read_lines f ! i) = Inr ndime \<and>
             find_line (read_lines f) ''NPOIN'' = Some j \<and>
             header_int (read_lines f ! j) = Inr npoin \<and>
             np_zeros npoin = Inr pts0 \<and>
             read_points pf ndime (read_lines f) j [0..<nat npoin] pts0 = Inr pts \<and>
             read_volume ndime (read_lines f) = Inr vol))"
proof -
  let ?L = "read_lines f"
  show ?thesis
  proof (cases "find_line ?L ''NDIME''")
    case None
    then show ?thesis using assms by (simp add: read_su2_def)
  next
    case i: (Some i)
    show ?thesis
    proof (cases "header_int (?L ! i)")
      case (Inl e)
      then show ?thesis using assms i by (simp add: read_su2_def)
    next
      case nd: (Inr ndime)
      show ?thesis
      proof (cases "find_line ?L ''NPOIN''")
        case None
        then show ?thesis using assms i nd by (simp add: read_su2_def)
      next
        case j: (Some j)
        show ?thesis
        proof (cases "header_int (?L ! j)")
          case (Inl e)
          then show ?thesis using assms i nd j by (simp add: read_su2_def)
        next
          case np: (Inr npoin)
          show ?thesis
          proof (cases "np_zeros npoin :: error + 'a list list")
            case (Inl e)
            then show ?thesis using assms i nd j np by (simp add: read_su2_def)
          next
            case z: (Inr pts0)
            show ?thesis
            proof (cases "read_points pf ndime ?L j [0..<nat npoin] pts0")
              case (Inl e)
              then show ?thesis using assms i nd j np z by (simp add: read_su2_def)
            next
              case p: (Inr pts)
              show ?thesis
              proof (cases "read_volume ndime ?L")
                case (Inl e)
                then show ?thesis using assms i nd j np z p by (simp add: read_su2_def)
              next
                case v: (Inr vol)
                show ?thesis
                proof (cases "find_line ?L ''NMARK''")
                  case None
                  then show ?thesis using assms i nd j np z p v
                    by (simp add: read_su2_def case_prod_unfold)
                next
                  case m: (Some k)
                  show ?thesis
                  proof (cases "header_int (?L ! k)")
                    case (Inl e)
                    then show ?thesis using assms i nd j np z p v m
                      by (simp add: read_su2_def case_prod_unfold)
                  next
                    case (Inr nmark)
                    then show ?thesis using assms i nd j np z p v m
                      by (cases "read_markers ndime ?L (nat nmark) (k + 1) []")
                         (simp_all add: read_su2_def case_prod_unfold)
                  qed
                qed
              qed
            qed
          qed
        qed
      qed
    qed
  qed
qed

section \<open>The header values of a file that is read\<close>



section \<open>Compaction: the claims\<close>

text \<open>
  Claim C1 (surface compaction). For every points array and element list,
  \<open>build_surface_compacted\<close> returns \<open>None\<close> exactly when no element has type code 5
  (triangle) or 9 (quad). When it returns a grid, the cells are the kept elements, in
  order, each with its own type code and with every node index replaced by its rank in the
  set of all indices the kept elements reference; the points are the coordinates at
  those indices in strictly ascending order. When all referenced indices are valid
  0-based rows of the points array, it does return that grid. In particular the marker
  \<open>[[5,0,1,2],[9,10,11,12,13]]\<close> gives the seven points 0, 1, 2, 10, 11, 12, 13 and the
  connectivities \<open>[0,1,2]\<close> and \<open>[3,4,5,6]\<close>.
\<close>

theorem surface_compaction:
  fixes global_pts :: "'r list list"
  shows
  "(build_surface_compacted global_pts elems = Inr None \<longleftrightarrow> surface_kept elems = []) \<and>
   (\<forall>g. build_surface_compacted global_pts elems = Inr (Some g) \<longrightarrow>
      ug_cells g = map (\<lambda>e. (hd e, map (rank_in (surface_used elems)) (tl e))) (surface_kept elems) \<and>
      map (coords global_pts) (sorted_list_of_set (surface_used elems)) = map Inr (ug_points g)) \<and>
   sorted_wrt (<) (sorted_list_of_set (surface_used elems)) \<and>
   set (sorted_list_of_set (surface_used elems)) = surface_used elems \<and>
   (surface_kept elems \<noteq> [] \<and>
    (\<forall>j \<in> surface_used elems. 0 \<le> j \<and> j < int (length global_pts)) \<and>
    (\<forall>p \<in> set global_pts. 3 \<le> length p) \<longrightarrow>
      build_surface_compacted global_pts elems =
        Inr (Some \<lparr>ug_points = map (xyz_at global_pts) (sorted_list_of_set (surface_used elems)),
                   ug_cells = map (\<lambda>e. (hd e, map (rank_in (surface_used elems)) (tl e)))
                                (surface_kept elems)\<rparr>)) \<and>
   (14 \<le> length global_pts \<and> (\<forall>p \<in> set global_pts. 3 \<le> length p) \<longrightarrow>
      build_surface_compacted global_pts [[5, 0, 1, 2], [9, 10, 11, 12, 13]] =
        Inr (Some \<lparr>ug_points = map (xyz_at global_pts) [0, 1, 2, 10, 11, 12, 13],
                   ug_cells = [(5, [0, 1, 2]), (9, [3, 4, 5, 6])]\<rparr>))"
proof (intro conjI allI impI)
  let ?S = "surface_used elems" and ?K = "surface_kept elems"
  have fin: "finite ?S" by (simp add: surface_used_def)
  have sub: "referenced (map tl ?K) \<subseteq> ?S" by (simp add: surface_used_def)
  have zip: "map (\<lambda>(c, ct). (ct, map (rank_in ?S) c)) (zip (map tl ?K) (map hd ?K))
             = map (\<lambda>e. (hd e, map (rank_in ?S) (tl e))) ?K"
    by (rule map_zip_cells)
  show "(build_surface_compacted global_pts elems = Inr None) = (?K = [])"
    by (simp add: build_surface_compacted_eq compact_and_build_None_iff)
  show "sorted_wrt (<) (sorted_list_of_set ?S)" using fin by simp
  show "set (sorted_list_of_set ?S) = ?S" using fin by simp
  {
    fix g assume g: "build_surface_compacted global_pts elems = Inr (Some g)"
    then have cb: "compact_and_build global_pts ?S (map tl ?K) (map hd ?K) = Inr (Some g)"
      by (simp add: build_surface_compacted_eq)
    show "ug_cells g = map (\<lambda>e. (hd e, map (rank_in ?S) (tl e))) ?K"
      using compact_and_build_Some(1) [OF cb fin sub] zip by simp
    show "map (coords global_pts) (sorted_list_of_set ?S) = map Inr (ug_points g)"
      using compact_and_build_Some(2) [OF cb fin sub] .
  }
  {
    assume a: "?K \<noteq> [] \<and> (\<forall>j \<in> ?S. 0 \<le> j \<and> j < int (length global_pts)) \<and>
               (\<forall>p \<in> set global_pts. 3 \<le> length p)"
    then have "map tl ?K \<noteq> []" by simp
    from compact_and_build_total [OF this fin sub, of global_pts "map hd ?K"] a zip
    show "build_surface_compacted global_pts elems =
        Inr (Some \<lparr>ug_points = map (xyz_at global_pts) (sorted_list_of_set ?S),
                   ug_cells = map (\<lambda>e. (hd e, map (rank_in ?S) (tl e))) ?K\<rparr>)"
      by (simp add: build_surface_compacted_eq)
  }
  {
    assume a: "14 \<le> length global_pts \<and> (\<forall>p \<in> set global_pts. 3 \<le> length p)"
    let ?E = "[[5, 0, 1, 2], [9, 10, 11, 12, 13 :: int]]"
    let ?l = "[0, 1, 2, 10, 11, 12, 13 :: int]"
    have K: "surface_kept ?E = ?E" by (simp add: surface_kept_def)
    have S: "surface_used ?E = set ?l" by (auto simp: surface_used_def K)
    have l: "sorted_list_of_set (set ?l) = ?l"
      by (rule sorted_list_of_set_strict) simp
    have srt: "sorted_wrt (<) ?l" by simp
    have r: "rank_in (set ?l) 0 = 0" "rank_in (set ?l) 1 = 1" "rank_in (set ?l) 2 = 2"
      "rank_in (set ?l) 10 = 3" "rank_in (set ?l) 11 = 4" "rank_in (set ?l) 12 = 5"
      "rank_in (set ?l) 13 = 6"
      using rank_in_nth [OF srt, of 0] rank_in_nth [OF srt, of 1] rank_in_nth [OF srt, of 2]
        rank_in_nth [OF srt, of 3] rank_in_nth [OF srt, of 4] rank_in_nth [OF srt, of 5]
        rank_in_nth [OF srt, of 6]
      by simp_all
    have "map tl ?E \<noteq> []" by simp
    moreover have "finite (set ?l)" by simp
    moreover have "referenced (map tl ?E) \<subseteq> set ?l" by simp
    moreover have "\<forall>j \<in> set ?l. 0 \<le> j \<and> j < int (length global_pts)" using a by auto
    moreover have "\<forall>p \<in> set global_pts. 3 \<le> length p" using a by simp
    ultimately have "compact_and_build global_pts (set ?l) (map tl ?E) (map hd ?E) =
         Inr (Some \<lparr>ug_points = map (xyz_at global_pts) (sorted_list_of_set (set ?l)),
                    ug_cells = map (\<lambda>(c, ct). (ct, map (rank_in (set ?l)) c)) (zip (map tl ?E) (map hd ?E))\<rparr>)"
      by (rule compact_and_build_total)
    then show "build_surface_compacted global_pts ?E =
        Inr (Some \<lparr>ug_points = map (xyz_at global_pts) ?l,
                   ug_cells = [(5, [0, 1, 2]), (9, [3, 4, 5, 6])]\<rparr>)"
      unfolding build_surface_compacted_eq K S l using r by simp
  }
qed

theorem surface_compaction_witness:
  "14 \<le> length [[0, 0, 0], [1, 1, 0], [2, 2, 0], [3, 3, 0], [4, 4, 0], [5, 5, 0], [6, 6, 0],
                [7, 7, 0], [8, 8, 0], [9, 9, 0], [10, 10, 0], [11, 11, 0], [12, 12, 0],
                [13, 13, 0 :: int]] \<and>
   surface_kept [[5, 0, 1, 2], [9, 10, 11, 12, 13]] \<noteq> [] \<and>
   build_surface_compacted
     [[0, 0, 0], [1, 1, 0], [2, 2, 0], [3, 3, 0], [4, 4, 0], [5, 5, 0], [6, 6, 0],
      [7, 7, 0], [8, 8, 0], [9, 9, 0], [10, 10, 0], [11, 11, 0], [12, 12, 0], [13, 13, 0 :: int]]
     [[5, 0, 1, 2], [9, 10, 11, 12, 13]] =
   Inr (Some \<lparr>ug_points = [(0, 0, 0), (1, 1, 0), (2, 2, 0), (10, 10, 0), (11, 11, 0),
                            (12, 12, 0), (13, 13, 0)],
              ug_cells = [(5, [0, 1, 2]), (9, [3, 4, 5, 6])]\<rparr>)"
proof -
  let ?P = "[[0, 0, 0], [1, 1, 0], [2, 2, 0], [3, 3, 0], [4, 4, 0], [5, 5, 0], [6, 6, 0],
      [7, 7, 0], [8, 8, 0], [9, 9, 0], [10, 10, 0], [11, 11, 0], [12, 12, 0], [13, 13, 0 :: int]]"
  have h: "14 \<le> length ?P \<and> (\<forall>p \<in> set ?P. 3 \<le> length p)" by simp
  have k: "surface_kept [[5, 0, 1, 2], [9, 10, 11, 12, 13]] \<noteq> []"
    by (simp add: surface_kept_def)
  from surface_compaction [of ?P "[[5, 0, 1, 2], [9, 10, 11, 12, 13]]"] h k show ?thesis
    by (simp add: xyz_at_def)
qed

text \<open>
  Claim C2 (round trip and bounds). In every grid either compaction returns, each
  index of the remapped connectivity lies in \<open>[0, number of compact points)\<close>, and reading
  it back through the sorted sequence of old indices gives the node lists of the kept
  elements again; for every node \<open>n\<close> of every kept element, \<open>used[old2new[n]] = n\<close>.
\<close>

theorem compaction_round_trip:
  fixes global_pts :: "'r list list"
  shows
  "(\<forall>g. build_surface_compacted global_pts elems = Inr (Some g) \<longrightarrow>
      (\<forall>cell \<in> set (ug_cells g). \<forall>r \<in> set (snd cell). 0 \<le> r \<and> r < int (length (ug_points g))) \<and>
      map (\<lambda>cell. map (\<lambda>r. sorted_list_of_set (surface_used elems) ! nat r) (snd cell)) (ug_cells g)
        = map tl (surface_kept elems)) \<and>
   (\<forall>g. build_boundary_compacted_2d global_pts elems = Inr (Some g) \<longrightarrow>
      (\<forall>cell \<in> set (ug_cells g). \<forall>r \<in> set (snd cell). 0 \<le> r \<and> r < int (length (ug_points g))) \<and>
      map (\<lambda>cell. map (\<lambda>r. sorted_list_of_set (line_used elems) ! nat r) (snd cell)) (ug_cells g)
        = map (take 2 \<circ> tl) (line_kept elems)) \<and>
   (\<forall>e \<in> set (surface_kept elems). \<forall>n \<in> set (tl e).
      \<exists>r. old2new_of (sorted_list_of_set (surface_used elems)) n = Some r \<and> 0 \<le> r \<and>
          r < int (length (sorted_list_of_set (surface_used elems))) \<and>
          sorted_list_of_set (surface_used elems) ! nat r = n) \<and>
   (\<forall>e \<in> set (line_kept elems). \<forall>n \<in> set (take 2 (tl e)).
      \<exists>r. old2new_of (sorted_list_of_set (line_used elems)) n = Some r \<and> 0 \<le> r \<and>
          r < int (length (sorted_list_of_set (line_used elems))) \<and>
          sorted_list_of_set (line_used elems) ! nat r = n)"
proof (intro conjI allI impI ballI)
  have fs: "finite (surface_used elems)" and fl: "finite (line_used elems)"
    by (simp_all add: surface_used_def line_used_def)
  have ss: "referenced (map tl (surface_kept elems)) \<subseteq> surface_used elems"
    and sl: "referenced (map (take 2 \<circ> tl) (line_kept elems)) \<subseteq> line_used elems"
    by (simp_all add: surface_used_def line_used_def)
  {
    fix g assume "build_surface_compacted global_pts elems = Inr (Some g)"
    then have cb: "compact_and_build global_pts (surface_used elems) (map tl (surface_kept elems))
         (map hd (surface_kept elems)) = Inr (Some g)"
      by (simp add: build_surface_compacted_eq)
    show "map (\<lambda>cell. map (\<lambda>r. sorted_list_of_set (surface_used elems) ! nat r) (snd cell)) (ug_cells g)
        = map tl (surface_kept elems)"
      using compact_and_build_round_trip(2) [OF cb fs ss] by simp
    fix cell r assume "cell \<in> set (ug_cells g)" "r \<in> set (snd cell)"
    then show "0 \<le> r" "r < int (length (ug_points g))"
      using compact_and_build_round_trip(1) [OF cb fs ss] by auto
  }
  {
    fix g assume "build_boundary_compacted_2d global_pts elems = Inr (Some g)"
    then have cb: "compact_and_build global_pts (line_used elems) (map (take 2 \<circ> tl) (line_kept elems))
         (map hd (line_kept elems)) = Inr (Some g)"
      by (simp add: build_boundary_compacted_2d_eq)
    show "map (\<lambda>cell. map (\<lambda>r. sorted_list_of_set (line_used elems) ! nat r) (snd cell)) (ug_cells g)
        = map (take 2 \<circ> tl) (line_kept elems)"
      using compact_and_build_round_trip(2) [OF cb fl sl] by simp
    fix cell r assume "cell \<in> set (ug_cells g)" "r \<in> set (snd cell)"
    then show "0 \<le> r" "r < int (length (ug_points g))"
      using compact_and_build_round_trip(1) [OF cb fl sl] by auto
  }
  {
    fix e n assume "e \<in> set (surface_kept elems)" "n \<in> set (tl e)"
    then have "n \<in> surface_used elems" by (auto simp: surface_used_def referenced_def)
    from old2new_round_trip [OF fs this]
    show "\<exists>r. old2new_of (sorted_list_of_set (surface_used elems)) n = Some r \<and> 0 \<le> r \<and>
          r < int (length (sorted_list_of_set (surface_used elems))) \<and>
          sorted_list_of_set (surface_used elems) ! nat r = n" .
  }
  {
    fix e n assume "e \<in> set (line_kept elems)" "n \<in> set (take 2 (tl e))"
    then have "n \<in> line_used elems" by (auto simp: line_used_def referenced_def)
    from old2new_round_trip [OF fl this]
    show "\<exists>r. old2new_of (sorted_list_of_set (line_used elems)) n = Some r \<and> 0 \<le> r \<and>
          r < int (length (sorted_list_of_set (line_used elems))) \<and>
          sorted_list_of_set (line_used elems) ! nat r = n" .
  }
qed

theorem compaction_round_trip_witness:
  "build_surface_compacted [[0, 0, 0], [1, 1, 0], [2, 2, 0], [3, 3, 0], [4, 4, 0 :: int]]
     [[9, 4, 2, 3, 2], [3, 1, 4], [5, 2, 1, 4]] =
     Inr (Some \<lparr>ug_points = [(1, 1, 0), (2, 2, 0), (3, 3, 0), (4, 4, 0)],
                ug_cells = [(9, [3, 1, 2, 1]), (5, [1, 0, 3])]\<rparr>) \<and>
   map (\<lambda>cell. map (\<lambda>r. sorted_list_of_set (surface_used [[9, 4, 2, 3, 2], [3, 1, 4], [5, 2, 1, 4]]) ! nat r)
              (snd cell))
     [(9 :: int, [3, 1, 2, 1]), (5, [1, 0, 3])] = [[4, 2, 3, 2], [2, 1, 4]] \<and>
   build_boundary_compacted_2d [[0, 0, 0], [1, 1, 0], [2, 2, 0], [3, 3, 0], [4, 4, 0 :: int]]
     [[9, 4, 2, 3, 2], [3, 1, 4], [5, 2, 1, 4]] =
     Inr (Some \<lparr>ug_points = [(1, 1, 0), (4, 4, 0)], ug_cells = [(3, [0, 1])]\<rparr>) \<and>
   map (\<lambda>cell. map (\<lambda>r. sorted_list_of_set (line_used [[9, 4, 2, 3, 2], [3, 1, 4], [5, 2, 1, 4]]) ! nat r)
              (snd cell))
     [(3 :: int, [0, 1])] = [[1, 4]]"
proof -
  let ?P = "[[0, 0, 0], [1, 1, 0], [2, 2, 0], [3, 3, 0], [4, 4, 0 :: int]]"
  let ?E = "[[9, 4, 2, 3, 2], [3, 1, 4], [5, 2, 1, 4 :: int]]"
  have s: "build_surface_compacted ?P ?E =
     Inr (Some \<lparr>ug_points = [(1, 1, 0), (2, 2, 0), (3, 3, 0), (4, 4, 0)],
                ug_cells = [(9, [3, 1, 2, 1]), (5, [1, 0, 3])]\<rparr>)"
    by code_simp
  have l: "build_boundary_compacted_2d ?P ?E =
     Inr (Some \<lparr>ug_points = [(1, 1, 0), (4, 4, 0)], ug_cells = [(3, [0, 1])]\<rparr>)"
    by code_simp
  have ks: "map tl (surface_kept ?E) = [[4, 2, 3, 2], [2, 1, 4]]"
    by (simp add: surface_kept_def)
  have kl: "map (take 2 \<circ> tl) (line_kept ?E) = [[1, 4]]"
    by (simp add: line_kept_def)
  from compaction_round_trip [of ?P ?E] s l ks kl show ?thesis
    by simp
qed

text \<open>
  Claim C4 (line compaction), as the code has it. \<open>build_boundary_compacted_2d\<close> keeps
  the elements of type code 3 (line) that carry at least two node indices, uses exactly
  their first two node indices, remaps them by rank as the surface compaction does, and
  returns \<open>None\<close> exactly when no such element exists. A line element with fewer than
  two node indices is skipped: with only such line elements the result is \<open>None\<close>
  although an element of type line exists.
\<close>

theorem line_compaction:
  fixes global_pts :: "'r list list"
  shows
  "(build_boundary_compacted_2d global_pts elems = Inr None \<longleftrightarrow> line_kept elems = []) \<and>
   set (line_kept elems) \<subseteq> set (line_typed elems) \<and>
   (\<forall>g. build_boundary_compacted_2d global_pts elems = Inr (Some g) \<longrightarrow>
      ug_cells g = map (\<lambda>e. (3, map (rank_in (line_used elems)) [e ! 1, e ! 2])) (line_kept elems) \<and>
      map (coords global_pts) (sorted_list_of_set (line_used elems)) = map Inr (ug_points g)) \<and>
   line_used elems = referenced (map (\<lambda>e. [e ! 1, e ! 2]) (line_kept elems)) \<and>
   sorted_wrt (<) (sorted_list_of_set (line_used elems)) \<and>
   set (sorted_list_of_set (line_used elems)) = line_used elems \<and>
   (line_kept elems \<noteq> [] \<and>
    (\<forall>j \<in> line_used elems. 0 \<le> j \<and> j < int (length global_pts)) \<and>
    (\<forall>p \<in> set global_pts. 3 \<le> length p) \<longrightarrow>
      build_boundary_compacted_2d global_pts elems =
        Inr (Some \<lparr>ug_points = map (xyz_at global_pts) (sorted_list_of_set (line_used elems)),
                   ug_cells = map (\<lambda>e. (3, map (rank_in (line_used elems)) [e ! 1, e ! 2]))
                                (line_kept elems)\<rparr>))"
proof (intro conjI allI impI)
  let ?S = "line_used elems" and ?K = "line_kept elems"
  have fin: "finite ?S" by (simp add: line_used_def)
  have sub: "referenced (map (take 2 \<circ> tl) ?K) \<subseteq> ?S" by (simp add: line_used_def)
  have two: "\<And>e. e \<in> set ?K \<Longrightarrow> take 2 (tl e) = [e ! 1, e ! 2] \<and> hd e = 3"
  proof -
    fix e assume "e \<in> set ?K"
    then have "3 \<le> length e" "hd e = 3" by (auto simp: line_kept_def)
    then obtain a b c r where "e = a # b # c # r"
      by (cases e; cases "tl e"; cases "tl (tl e)") auto
    with \<open>hd e = 3\<close> show "take 2 (tl e) = [e ! 1, e ! 2] \<and> hd e = 3" by simp
  qed
  have conns: "map (take 2 \<circ> tl) ?K = map (\<lambda>e. [e ! 1, e ! 2]) ?K"
    using two by (intro map_cong) auto
  have zip: "map (\<lambda>(c, ct). (ct, map (rank_in ?S) c)) (zip (map (take 2 \<circ> tl) ?K) (map hd ?K))
             = map (\<lambda>e. (3, map (rank_in ?S) [e ! 1, e ! 2])) ?K"
    unfolding map_zip_cells using two by (intro map_cong) auto
  show "(build_boundary_compacted_2d global_pts elems = Inr None) = (?K = [])"
    by (simp add: build_boundary_compacted_2d_eq compact_and_build_None_iff)
  show "set ?K \<subseteq> set (line_typed elems)"
    by (auto simp: line_kept_def line_typed_def)
  show "?S = referenced (map (\<lambda>e. [e ! 1, e ! 2]) ?K)"
    unfolding line_used_def conns ..
  show "sorted_wrt (<) (sorted_list_of_set ?S)" using fin by simp
  show "set (sorted_list_of_set ?S) = ?S" using fin by simp
  {
    fix g assume g: "build_boundary_compacted_2d global_pts elems = Inr (Some g)"
    then have cb: "compact_and_build global_pts ?S (map (take 2 \<circ> tl) ?K) (map hd ?K) = Inr (Some g)"
      by (simp add: build_boundary_compacted_2d_eq)
    show "ug_cells g = map (\<lambda>e. (3, map (rank_in ?S) [e ! 1, e ! 2])) ?K"
      using compact_and_build_Some(1) [OF cb fin sub] zip by simp
    show "map (coords global_pts) (sorted_list_of_set ?S) = map Inr (ug_points g)"
      using compact_and_build_Some(2) [OF cb fin sub] .
  }
  {
    assume a: "?K \<noteq> [] \<and> (\<forall>j \<in> ?S. 0 \<le> j \<and> j < int (length global_pts)) \<and>
               (\<forall>p \<in> set global_pts. 3 \<le> length p)"
    then have "map (take 2 \<circ> tl) ?K \<noteq> []" by simp
    from compact_and_build_total [OF this fin sub, of global_pts "map hd ?K"] a zip
    show "build_boundary_compacted_2d global_pts elems =
        Inr (Some \<lparr>ug_points = map (xyz_at global_pts) (sorted_list_of_set ?S),
                   ug_cells = map (\<lambda>e. (3, map (rank_in ?S) [e ! 1, e ! 2])) ?K\<rparr>)"
      by (simp add: build_boundary_compacted_2d_eq)
  }
qed

theorem line_compaction_witness:
  "line_kept [[3, 1, 4, 99], [3, 7], [5, 0, 1, 2], [3, 4, 2]] = [[3, 1, 4, 99], [3, 4, 2]] \<and>
   build_boundary_compacted_2d [[0, 0, 0], [1, 1, 0], [2, 2, 0], [3, 3, 0], [4, 4, 0 :: int]]
     [[3, 1, 4, 99], [3, 7], [5, 0, 1, 2], [3, 4, 2]] =
     Inr (Some \<lparr>ug_points = [(1, 1, 0), (2, 2, 0), (4, 4, 0)],
                ug_cells = [(3, [0, 2]), (3, [2, 1])]\<rparr>) \<and>
   map (\<lambda>e. (3 :: int, map (rank_in (line_used [[3, 1, 4, 99], [3, 7], [5, 0, 1, 2], [3, 4, 2]])) [e ! 1, e ! 2]))
     (line_kept [[3, 1, 4, 99], [3, 7], [5, 0, 1, 2], [3, 4, 2]]) = [(3, [0, 2]), (3, [2, 1])]"
proof -
  let ?P = "[[0, 0, 0], [1, 1, 0], [2, 2, 0], [3, 3, 0], [4, 4, 0 :: int]]"
  let ?E = "[[3, 1, 4, 99], [3, 7], [5, 0, 1, 2], [3, 4, 2 :: int]]"
  let ?G = "\<lparr>ug_points = [(1, 1, 0), (2, 2, 0), (4, 4, 0 :: int)],
            ug_cells = [(3, [0, 2]), (3, [2, 1])]\<rparr>"
  have k: "line_kept ?E = [[3, 1, 4, 99], [3, 4, 2]]"
    by (simp add: line_kept_def)
  have r: "build_boundary_compacted_2d ?P ?E = Inr (Some ?G)"
    by code_simp
  from line_compaction [of ?P ?E]
  have "\<forall>g. build_boundary_compacted_2d ?P ?E = Inr (Some g) \<longrightarrow>
      ug_cells g = map (\<lambda>e. (3 :: int, map (rank_in (line_used ?E)) [e ! 1, e ! 2])) (line_kept ?E) \<and>
      map (coords ?P) (sorted_list_of_set (line_used ?E)) = map Inr (ug_points g)"
    by blast
  with r have "ug_cells ?G = map (\<lambda>e. (3 :: int, map (rank_in (line_used ?E)) [e ! 1, e ! 2])) (line_kept ?E)"
    by blast
  then have c: "map (\<lambda>e. (3 :: int, map (rank_in (line_used ?E)) [e ! 1, e ! 2])) (line_kept ?E)
      = [(3, [0, 2]), (3, [2, 1])]"
    by simp
  from k r c show ?thesis by (intro conjI)
qed

theorem line_compaction_counterexample:
  "build_boundary_compacted_2d [[0, 0, 0], [1, 0, 0 :: int]] [[3, 7]] = Inr None \<and>
   line_typed [[3, 7]] = [[3, 7]]"
  by (simp add: build_boundary_compacted_2d_eq line_typed_def line_kept_def
      compact_and_build_None_iff)

text \<open>
  Claim C8 (determinism). Both compactions are functions of the points array and the
  element list alone, so the same input gives the same output. Their point sequence
  does not depend on the order of the elements: any rearrangement of the element list
  gives the same points (or the same failure). It is the coordinates along the one
  strictly ascending sequence of the referenced indices, and sorting the set of these
  indices gives that sequence in whatever order the set is enumerated.
\<close>

theorem compaction_determinism:
  fixes global_pts :: "'r list list"
  shows
  "(mset elems' = mset elems \<longrightarrow>
      result_points (build_surface_compacted global_pts elems') =
        result_points (build_surface_compacted global_pts elems) \<and>
      result_points (build_boundary_compacted_2d global_pts elems') =
        result_points (build_boundary_compacted_2d global_pts elems)) \<and>
   (\<forall>g used. build_surface_compacted global_pts elems = Inr (Some g) \<and>
      sorted_wrt (<) used \<and> set used = surface_used elems \<longrightarrow>
      map (coords global_pts) used = map Inr (ug_points g)) \<and>
   (\<forall>g used. build_boundary_compacted_2d global_pts elems = Inr (Some g) \<and>
      sorted_wrt (<) used \<and> set used = line_used elems \<longrightarrow>
      map (coords global_pts) used = map Inr (ug_points g)) \<and>
   (\<forall>us. distinct us \<and> set us = surface_used elems \<longrightarrow>
      sort us = sorted_list_of_set (surface_used elems)) \<and>
   (\<forall>us. distinct us \<and> set us = line_used elems \<longrightarrow>
      sort us = sorted_list_of_set (line_used elems))"
proof (intro conjI allI impI)
  have fs: "\<And>es. finite (surface_used es)" and fl: "\<And>es. finite (line_used es)"
    by (simp_all add: surface_used_def line_used_def)
  have ss: "\<And>es. referenced (map tl (surface_kept es)) \<subseteq> surface_used es"
    and sl: "\<And>es. referenced (map (take 2 \<circ> tl) (line_kept es)) \<subseteq> line_used es"
    by (simp_all add: surface_used_def line_used_def)
  {
    assume m: "mset elems' = mset elems"
    have s: "\<And>es. result_points (build_surface_compacted global_pts es) =
        (if surface_kept es = [] then Inr None
         else bind_res (np_take global_pts (sorted_list_of_set (surface_used es))) (\<lambda>local_pts.
              bind_res (map_res point3 local_pts) (\<lambda>vtk_pts. Inr (Some vtk_pts))))"
      by (simp add: build_surface_compacted_eq result_points_compact_and_build [OF fs ss])
    have l: "\<And>es. result_points (build_boundary_compacted_2d global_pts es) =
        (if line_kept es = [] then Inr None
         else bind_res (np_take global_pts (sorted_list_of_set (line_used es))) (\<lambda>local_pts.
              bind_res (map_res point3 local_pts) (\<lambda>vtk_pts. Inr (Some vtk_pts))))"
      by (simp add: build_boundary_compacted_2d_eq result_points_compact_and_build [OF fl sl])
    show "result_points (build_surface_compacted global_pts elems') =
        result_points (build_surface_compacted global_pts elems)"
      unfolding s using surface_used_mset [OF m] by simp
    show "result_points (build_boundary_compacted_2d global_pts elems') =
        result_points (build_boundary_compacted_2d global_pts elems)"
      unfolding l using line_used_mset [OF m] by simp
  }
  {
    fix g used
    assume a: "build_surface_compacted global_pts elems = Inr (Some g) \<and>
      sorted_wrt (<) used \<and> set used = surface_used elems"
    then have u: "used = sorted_list_of_set (surface_used elems)"
      by (intro strict_sorted_is_sorted_list_of_set) simp_all
    from a have "compact_and_build global_pts (surface_used elems) (map tl (surface_kept elems))
         (map hd (surface_kept elems)) = Inr (Some g)"
      by (simp add: build_surface_compacted_eq)
    from compact_and_build_Some(2) [OF this fs ss]
    show "map (coords global_pts) used = map Inr (ug_points g)" by (simp add: u)
  }
  {
    fix g used
    assume a: "build_boundary_compacted_2d global_pts elems = Inr (Some g) \<and>
      sorted_wrt (<) used \<and> set used = line_used elems"
    then have u: "used = sorted_list_of_set (line_used elems)"
      by (intro strict_sorted_is_sorted_list_of_set) simp_all
    from a have "compact_and_build global_pts (line_used elems) (map (take 2 \<circ> tl) (line_kept elems))
         (map hd (line_kept elems)) = Inr (Some g)"
      by (simp add: build_boundary_compacted_2d_eq)
    from compact_and_build_Some(2) [OF this fl sl]
    show "map (coords global_pts) used = map Inr (ug_points g)" by (simp add: u)
  }
  {
    fix us :: "int list"
    assume "distinct us \<and> set us = surface_used elems"
    then show "sort us = sorted_list_of_set (surface_used elems)"
      using sorted_list_of_set_sort_remdups [of us] by (simp add: distinct_remdups_id)
  }
  {
    fix us :: "int list"
    assume "distinct us \<and> set us = line_used elems"
    then show "sort us = sorted_list_of_set (line_used elems)"
      using sorted_list_of_set_sort_remdups [of us] by (simp add: distinct_remdups_id)
  }
qed

theorem compaction_determinism_witness:
  "mset [[5, 2, 1, 4], [3, 1, 4], [9, 4, 2, 3, 2]] = mset [[9, 4, 2, 3, 2], [3, 1, 4], [5, 2, 1, 4 :: int]] \<and>
   result_points (build_surface_compacted [[0, 0, 0], [1, 1, 0], [2, 2, 0], [3, 3, 0], [4, 4, 0 :: int]]
     [[5, 2, 1, 4], [3, 1, 4], [9, 4, 2, 3, 2]]) =
     Inr (Some [(1, 1, 0), (2, 2, 0), (3, 3, 0), (4, 4, 0)]) \<and>
   result_points (build_boundary_compacted_2d [[0, 0, 0], [1, 1, 0], [2, 2, 0], [3, 3, 0], [4, 4, 0 :: int]]
     [[5, 2, 1, 4], [3, 1, 4], [9, 4, 2, 3, 2]]) =
     Inr (Some [(1, 1, 0), (4, 4, 0)])"
proof -
  let ?P = "[[0, 0, 0], [1, 1, 0], [2, 2, 0], [3, 3, 0], [4, 4, 0 :: int]]"
  let ?E = "[[9, 4, 2, 3, 2], [3, 1, 4], [5, 2, 1, 4 :: int]]"
  let ?E' = "[[5, 2, 1, 4], [3, 1, 4], [9, 4, 2, 3, 2 :: int]]"
  have m: "mset ?E' = mset ?E" by simp
  have s: "result_points (build_surface_compacted ?P ?E) =
     Inr (Some [(1, 1, 0), (2, 2, 0), (3, 3, 0), (4, 4, 0)])"
    by code_simp
  have l: "result_points (build_boundary_compacted_2d ?P ?E) = Inr (Some [(1, 1, 0), (4, 4, 0)])"
    by code_simp
  from compaction_determinism [of ?E' ?E ?P] m s l show ?thesis
    by simp
qed

section \<open>The reader: the claims\<close>

text \<open>
  Claim C3 (trailing-field correction), as the code has it. Every volume element the
  reader returns is a record of the volume section with a recognized type code, and its
  node list is that of the corrected record; every marker element is the corrected
  record of a line of its marker block, the correction being decided by the record's
  own type code. In a 2D file the corrected record of a type with a known node count
  \<open>n\<close> keeps the first \<open>n\<close> node indices: exactly \<open>n\<close> when the line carries at
  least \<open>n\<close>, all of them when it carries fewer. A record of an unknown type, and every
  record of a file whose dimension is not 2, is kept whole.
\<close>

theorem trailing_field_correction:
  "(read_su2 pf f = Inr (ndime, pts, vol_conns, vol_ctypes, markers) \<longrightarrow>
     (\<exists>recs. volume_records (read_lines f) = Inr recs \<and>
        vol_conns = map (\<lambda>r. tl (corrected_record ndime r)) (filter recognized recs) \<and>
        vol_ctypes = map hd (filter recognized recs)) \<and>
     (\<forall>b \<in> set markers. \<exists>q recs.
        marker_records (read_lines f) q = Inr recs \<and>
        snd b = map (corrected_record ndime) recs)) \<and>
   (expected_nodes t = Some n \<longrightarrow>
      corrected_record 2 (t # nodes) = t # take n nodes \<and>
      length (take n nodes) = min n (length nodes)) \<and>
   (expected_nodes t = None \<longrightarrow> corrected_record 2 (t # nodes) = t # nodes) \<and>
   (nd \<noteq> 2 \<longrightarrow> corrected_record nd r = r)"
proof (intro conjI impI ballI)
  show "expected_nodes t = Some n \<Longrightarrow> corrected_record 2 (t # nodes) = t # take n nodes"
    by (simp add: corrected_record_def)
  show "length (take n nodes) = min n (length nodes)" by simp
  show "expected_nodes t = None \<Longrightarrow> corrected_record 2 (t # nodes) = t # nodes"
    by (simp add: corrected_record_def)
  show "nd \<noteq> 2 \<Longrightarrow> corrected_record nd r = r"
    by (simp add: corrected_record_def split: list.splits option.splits)
next
  assume ok: "read_su2 pf f = Inr (ndime, pts, vol_conns, vol_ctypes, markers)"
  show "\<exists>recs. volume_records (read_lines f) = Inr recs \<and>
        vol_conns = map (\<lambda>r. tl (corrected_record ndime r)) (filter recognized recs) \<and>
        vol_ctypes = map hd (filter recognized recs)"
    using read_su2_volume [OF ok] .
  fix b assume "b \<in> set markers"
  from read_su2_marker_entry [OF ok this]
  show "\<exists>q recs. marker_records (read_lines f) q = Inr recs \<and>
        snd b = map (corrected_record ndime) recs"
    by blast
qed

theorem trailing_field_correction_witness:
  "read_su2 float_literal
     [''NDIME= 2'', ''NPOIN= 1'', ''0 0'', ''NELEM= 2'', ''9 0 1 2 3 99'',
      ''77 1 2'', ''NMARK= 1'', ''MARKER_TAG= in'', ''MARKER_ELEMS= 2'', ''3 0 1 5'',
      ''99 4 5 6''] =
     Inr (2, [[0, 0, 0]], [[0, 1, 2, 3]], [9], [(''in'', [[3, 0, 1], [99, 4, 5, 6]])]) \<and>
   expected_nodes 9 = Some 4 \<and>
   corrected_record 2 [9, 0, 1, 2, 3, 99] = [9, 0, 1, 2, 3] \<and>
   expected_nodes 99 = None \<and>
   corrected_record 2 [99, 4, 5, 6] = [99, 4, 5, 6] \<and>
   corrected_record 3 [9, 0, 1, 2, 3, 99] = [9, 0, 1, 2, 3, 99] \<and>
   (\<exists>recs. volume_records (read_lines
        [''NDIME= 2'', ''NPOIN= 1'', ''0 0'', ''NELEM= 2'', ''9 0 1 2 3 99'',
         ''77 1 2'', ''NMARK= 1'', ''MARKER_TAG= in'', ''MARKER_ELEMS= 2'', ''3 0 1 5'',
         ''99 4 5 6'']) = Inr recs \<and>
      [[0, 1, 2, 3]] = map (\<lambda>r. tl (corrected_record 2 r)) (filter recognized recs) \<and>
      [9] = map hd (filter recognized recs))"
proof -
  let ?F = "[''NDIME= 2'', ''NPOIN= 1'', ''0 0'', ''NELEM= 2'', ''9 0 1 2 3 99'',
      ''77 1 2'', ''NMARK= 1'', ''MARKER_TAG= in'', ''MARKER_ELEMS= 2'', ''3 0 1 5'',
      ''99 4 5 6'']"
  note T = trailing_field_correction [of float_literal ?F 2 "[[0, 0, 0]]" "[[0, 1, 2, 3]]" "[9]"
      "[(''in'', [[3, 0, 1], [99, 4, 5, 6]])]"]
  have h: "read_su2 float_literal ?F =
     Inr (2, [[0, 0, 0]], [[0, 1, 2, 3]], [9], [(''in'', [[3, 0, 1], [99, 4, 5, 6]])])"
    by code_simp
  have e: "expected_nodes 9 = Some 4" and e': "expected_nodes 99 = None"
    by (simp_all add: expected_nodes_def)
  have 1: "corrected_record 2 [9, 0, 1, 2, 3, 99] = [9, 0, 1, 2, 3]"
    using T [of 9 4 "[0, 1, 2, 3, 99]"] e by simp
  have 2: "corrected_record 2 [99, 4, 5, 6] = [99, 4, 5, 6]"
    using T [of 99 _ "[4, 5, 6]"] e' by simp
  have 3: "corrected_record 3 [9, 0, 1, 2, 3, 99] = [9, 0, 1, 2, 3, 99]"
    using T [of _ _ _ 3 "[9, 0, 1, 2, 3, 99]"] by simp
  have 4: "\<exists>recs. volume_records (read_lines ?F) = Inr recs \<and>
      [[0, 1, 2, 3]] = map (\<lambda>r. tl (corrected_record 2 r)) (filter recognized recs) \<and>
      [9] = map hd (filter recognized recs)"
    using T h by blast
  from h e 1 e' 2 3 4 show ?thesis by (intro conjI)
qed

theorem trailing_field_correction_counterexample:
  "read_su2 float_literal
     [''NDIME= 2'', ''NPOIN= 1'', ''0 0'', ''NELEM= 1'', ''5 0 1'', ''NMARK= 0''] =
     Inr (2, [[0, 0, 0]], [[0, 1]], [5], []) \<and>
   expected_nodes 5 = Some 3 \<and> length [0, 1 :: int] \<noteq> 3"
proof -
  have "read_su2 float_literal
     [''NDIME= 2'', ''NPOIN= 1'', ''0 0'', ''NELEM= 1'', ''5 0 1'', ''NMARK= 0''] =
     Inr (2, [[0, 0, 0]], [[0, 1]], [5], [])"
    by code_simp
  then show ?thesis by (simp add: expected_nodes_def)
qed

text \<open>
  Claim C7 (two-stage type filtering). Every cell type of the volume mesh the reader
  returns is one of the seven recognized codes, the volume elements being the records
  of the volume section with a recognized type code (the others are dropped, and the
  reading goes on). Every marker list the reader returns holds all the records of its
  marker block, one entry per record with the record's own type code, recognized or not.
\<close>

theorem type_filtering:
  "read_su2 pf f = Inr (ndime, pts, vol_conns, vol_ctypes, markers) \<longrightarrow>
     (\<forall>ct \<in> set vol_ctypes. ct \<in> {3, 5, 9, 10, 12, 13, 14}) \<and>
     length vol_conns = length vol_ctypes \<and>
     (\<exists>recs. volume_records (read_lines f) = Inr recs \<and>
        vol_ctypes = map hd (filter recognized recs)) \<and>
     (\<forall>b \<in> set markers. \<exists>q recs.
        block_at ndime (read_lines f) q = Inr b \<and>
        marker_records (read_lines f) q = Inr recs \<and>
        length (snd b) = length recs \<and> map hd (snd b) = map hd recs)"
proof (intro impI conjI ballI)
  assume ok: "read_su2 pf f = Inr (ndime, pts, vol_conns, vol_ctypes, markers)"
  from read_su2_volume [OF ok] obtain recs where
    recs: "volume_records (read_lines f) = Inr recs" and
    vc: "vol_conns = map (\<lambda>r. tl (corrected_record ndime r)) (filter recognized recs)" and
    vt: "vol_ctypes = map hd (filter recognized recs)"
    by blast
  show "length vol_conns = length vol_ctypes" by (simp add: vc vt)
  show "\<exists>recs. volume_records (read_lines f) = Inr recs \<and>
        vol_ctypes = map hd (filter recognized recs)"
    using recs vt by blast
  {
    fix ct assume "ct \<in> set vol_ctypes"
    then obtain r where "recognized r" "ct = hd r" by (auto simp: vt)
    then show "ct \<in> {3, 5, 9, 10, 12, 13, 14}"
      by (simp add: recognized_def expected_nodes_def split: if_splits)
  }
  {
    fix b assume "b \<in> set markers"
    from read_su2_marker_entry [OF ok this] obtain q recs where
      "block_at ndime (read_lines f) q = Inr b" "marker_records (read_lines f) q = Inr recs"
      "snd b = map (corrected_record ndime) recs"
      by blast
    then show "\<exists>q recs. block_at ndime (read_lines f) q = Inr b \<and>
        marker_records (read_lines f) q = Inr recs \<and>
        length (snd b) = length recs \<and> map hd (snd b) = map hd recs"
      by (auto simp: hd_corrected_record)
  }
qed

theorem type_filtering_witness:
  "read_su2 float_literal
     [''% mesh'', ''NDIME= 2'', ''NPOIN= 1'', ''0 0'', ''NELEM= 2'', ''9 0 1 2 3 99'',
      ''77 1 2'', ''NMARK= 1'', ''MARKER_TAG= in'', ''MARKER_ELEMS= 2'', ''3 0 1 5'',
      ''99 4 5 6''] =
     Inr (2, [[0, 0, 0]], [[0, 1, 2, 3]], [9], [(''in'', [[3, 0, 1], [99, 4, 5, 6]])]) \<and>
   volume_records (read_lines
     [''% mesh'', ''NDIME= 2'', ''NPOIN= 1'', ''0 0'', ''NELEM= 2'', ''9 0 1 2 3 99'',
      ''77 1 2'', ''NMARK= 1'', ''MARKER_TAG= in'', ''MARKER_ELEMS= 2'', ''3 0 1 5'',
      ''99 4 5 6'']) = Inr [[9, 0, 1, 2, 3, 99], [77, 1, 2]] \<and>
   marker_records (read_lines
     [''% mesh'', ''NDIME= 2'', ''NPOIN= 1'', ''0 0'', ''NELEM= 2'', ''9 0 1 2 3 99'',
      ''77 1 2'', ''NMARK= 1'', ''MARKER_TAG= in'', ''MARKER_ELEMS= 2'', ''3 0 1 5'',
      ''99 4 5 6'']) 7 = Inr [[3, 0, 1, 5], [99, 4, 5, 6]] \<and>
   (\<exists>q recs.
      block_at 2 (read_lines
        [''% mesh'', ''NDIME= 2'', ''NPOIN= 1'', ''0 0'', ''NELEM= 2'', ''9 0 1 2 3 99'',
         ''77 1 2'', ''NMARK= 1'', ''MARKER_TAG= in'', ''MARKER_ELEMS= 2'', ''3 0 1 5'',
         ''99 4 5 6'']) q = Inr (''in'', [[3, 0, 1], [99, 4, 5, 6]]) \<and>
      marker_records (read_lines
        [''% mesh'', ''NDIME= 2'', ''NPOIN= 1'', ''0 0'', ''NELEM= 2'', ''9 0 1 2 3 99'',
         ''77 1 2'', ''NMARK= 1'', ''MARKER_TAG= in'', ''MARKER_ELEMS= 2'', ''3 0 1 5'',
         ''99 4 5 6'']) q = Inr recs \<and>
      length [[3, 0, 1], [99, 4, 5, 6 :: int]] = length recs \<and>
      map hd [[3, 0, 1], [99, 4, 5, 6]] = map hd recs)"
proof -
  let ?F = "[''% mesh'', ''NDIME= 2'', ''NPOIN= 1'', ''0 0'', ''NELEM= 2'', ''9 0 1 2 3 99'',
      ''77 1 2'', ''NMARK= 1'', ''MARKER_TAG= in'', ''MARKER_ELEMS= 2'', ''3 0 1 5'',
      ''99 4 5 6'']"
  have h: "read_su2 float_literal ?F =
     Inr (2, [[0, 0, 0]], [[0, 1, 2, 3]], [9], [(''in'', [[3, 0, 1], [99, 4, 5, 6]])])"
    by code_simp
  have v: "volume_records (read_lines ?F) = Inr [[9, 0, 1, 2, 3, 99], [77, 1, 2]]"
    by code_simp
  have m: "marker_records (read_lines ?F) 7 = Inr [[3, 0, 1, 5], [99, 4, 5, 6]]"
    by code_simp
  from type_filtering [of float_literal ?F 2 "[[0, 0, 0]]" "[[0, 1, 2, 3]]" "[9]"
      "[(''in'', [[3, 0, 1], [99, 4, 5, 6]])]"] h
  have "\<forall>b \<in> set [(''in'', [[3, 0, 1], [99, 4, 5, 6 :: int]])]. \<exists>q recs.
      block_at 2 (read_lines ?F) q = Inr b \<and>
      marker_records (read_lines ?F) q = Inr recs \<and>
      length (snd b) = length recs \<and> map hd (snd b) = map hd recs"
    by blast
  then have "\<exists>q recs.
      block_at 2 (read_lines ?F) q = Inr (''in'', [[3, 0, 1], [99, 4, 5, 6]]) \<and>
      marker_records (read_lines ?F) q = Inr recs \<and>
      length [[3, 0, 1], [99, 4, 5, 6 :: int]] = length recs \<and>
      map hd [[3, 0, 1], [99, 4, 5, 6]] = map hd recs"
    by simp
  with h v m show ?thesis by (intro conjI)
qed

text \<open>
  Claim C10 (two markers with one tag). Storing the marker blocks never fails: the
  marker loop returns whenever the blocks can be read, whatever their tags. For every
  tag of the file the dictionary the reader returns has exactly one entry, and its
  element list is that of the last block with this tag in file order.
\<close>

theorem duplicate_marker_tag:
  "read_markers ndime lines n q markers0 =
     bind_res (marker_blocks ndime lines n q) (\<lambda>blocks. Inr (store_all blocks markers0)) \<and>
   (\<forall>nd pts vol_conns vol_ctypes markers.
      read_su2 pf f = Inr (nd, pts, vol_conns, vol_ctypes, markers) \<longrightarrow>
      (\<exists>i nmark blocks.
         find_line (read_lines f) ''NMARK'' = Some i \<and>
         header_int (read_lines f ! i) = Inr nmark \<and>
         marker_blocks nd (read_lines f) (nat nmark) (i + 1) = Inr blocks \<and>
         (\<forall>tag \<in> fst ` set blocks.
            map_of markers tag = Some (snd (last (filter (\<lambda>b. fst b = tag) blocks))) \<and>
            length (filter (\<lambda>b. fst b = tag) markers) = 1)))"
proof (intro conjI allI impI)
  show "read_markers ndime lines n q markers0 =
     bind_res (marker_blocks ndime lines n q) (\<lambda>blocks. Inr (store_all blocks markers0))"
    by (rule read_markers_eq)
next
  fix nd pts vol_conns vol_ctypes markers
  assume "read_su2 pf f = Inr (nd, pts, vol_conns, vol_ctypes, markers)"
  from read_su2_markers [OF this] obtain i nmark blocks where
    i: "find_line (read_lines f) ''NMARK'' = Some i" and
    nmark: "header_int (read_lines f ! i) = Inr nmark" and
    blocks: "marker_blocks nd (read_lines f) (nat nmark) (i + 1) = Inr blocks" and
    m: "markers = store_all blocks []"
    by blast
  have "\<forall>tag \<in> fst ` set blocks.
            map_of markers tag = Some (snd (last (filter (\<lambda>b. fst b = tag) blocks))) \<and>
            length (filter (\<lambda>b. fst b = tag) markers) = 1"
  proof
    fix tag assume t: "tag \<in> fst ` set blocks"
    have "distinct (map fst markers)" unfolding m by (rule distinct_store_all) simp
    moreover have "tag \<in> fst ` set markers" using t by (simp add: m keys_store_all)
    ultimately have "length (filter (\<lambda>b. fst b = tag) markers) = 1" by (rule single_entry)
    moreover have "map_of markers tag = Some (snd (last (filter (\<lambda>b. fst b = tag) blocks)))"
      using t by (simp add: m map_of_store_all)
    ultimately show "map_of markers tag = Some (snd (last (filter (\<lambda>b. fst b = tag) blocks))) \<and>
            length (filter (\<lambda>b. fst b = tag) markers) = 1" by simp
  qed
  with i nmark blocks show "\<exists>i nmark blocks.
         find_line (read_lines f) ''NMARK'' = Some i \<and>
         header_int (read_lines f ! i) = Inr nmark \<and>
         marker_blocks nd (read_lines f) (nat nmark) (i + 1) = Inr blocks \<and>
         (\<forall>tag \<in> fst ` set blocks.
            map_of markers tag = Some (snd (last (filter (\<lambda>b. fst b = tag) blocks))) \<and>
            length (filter (\<lambda>b. fst b = tag) markers) = 1)"
    by blast
qed

theorem duplicate_marker_tag_witness:
  "read_su2 float_literal
     [''NDIME= 3'', ''NPOIN= 0'', ''NMARK= 2'', ''MARKER_TAG= wall'', ''MARKER_ELEMS= 1'',
      ''5 0 1 2'', ''MARKER_TAG= wall'', ''MARKER_ELEMS= 1'', ''9 0 1 2 3''] =
     Inr (3, [], [], [], [(''wall'', [[9, 0, 1, 2, 3]])]) \<and>
   marker_blocks 3
     (read_lines [''NDIME= 3'', ''NPOIN= 0'', ''NMARK= 2'', ''MARKER_TAG= wall'',
        ''MARKER_ELEMS= 1'', ''5 0 1 2'', ''MARKER_TAG= wall'', ''MARKER_ELEMS= 1'',
        ''9 0 1 2 3'']) 2 3 =
     Inr [(''wall'', [[5, 0, 1, 2]]), (''wall'', [[9, 0, 1, 2, 3]])] \<and>
   map_of [(''wall'', [[9, 0, 1, 2, 3 :: int]])] ''wall'' =
     Some (snd (last (filter (\<lambda>b. fst b = ''wall'')
       [(''wall'', [[5, 0, 1, 2]]), (''wall'', [[9, 0, 1, 2, 3]])]))) \<and>
   length (filter (\<lambda>b. fst b = ''wall'') [(''wall'', [[9, 0, 1, 2, 3 :: int]])]) = 1"
proof -
  let ?F = "[''NDIME= 3'', ''NPOIN= 0'', ''NMARK= 2'', ''MARKER_TAG= wall'', ''MARKER_ELEMS= 1'',
      ''5 0 1 2'', ''MARKER_TAG= wall'', ''MARKER_ELEMS= 1'', ''9 0 1 2 3'']"
  let ?B = "[(''wall'', [[5, 0, 1, 2]]), (''wall'', [[9, 0, 1, 2, 3 :: int]])]"
  have h: "read_su2 float_literal ?F = Inr (3, [], [], [], [(''wall'', [[9, 0, 1, 2, 3]])])"
    by code_simp
  have i: "find_line (read_lines ?F) ''NMARK'' = Some 2" by code_simp
  have n: "header_int (read_lines ?F ! 2) = Inr 2" by code_simp
  have b: "marker_blocks 3 (read_lines ?F) 2 3 = Inr ?B" by code_simp
  from duplicate_marker_tag [of 3 "read_lines ?F" 2 3 "[]" float_literal ?F] h
  obtain i' nmark blocks where
    "find_line (read_lines ?F) ''NMARK'' = Some i'"
    "header_int (read_lines ?F ! i') = Inr nmark"
    "marker_blocks 3 (read_lines ?F) (nat nmark) (i' + 1) = Inr blocks"
    and all: "\<forall>tag \<in> fst ` set blocks.
            map_of [(''wall'', [[9, 0, 1, 2, 3 :: int]])] tag =
              Some (snd (last (filter (\<lambda>b. fst b = tag) blocks))) \<and>
            length (filter (\<lambda>b. fst b = tag) [(''wall'', [[9, 0, 1, 2, 3 :: int]])]) = 1"
    by blast
  with i n b have "blocks = ?B" by simp
  with all have "map_of [(''wall'', [[9, 0, 1, 2, 3 :: int]])] ''wall'' =
       Some (snd (last (filter (\<lambda>b. fst b = ''wall'') ?B))) \<and>
     length (filter (\<lambda>b. fst b = ''wall'') [(''wall'', [[9, 0, 1, 2, 3 :: int]])]) = 1"
    by simp
  with h b show ?thesis by (intro conjI) simp_all
qed




text \<open>
  Claim C6 (point parsing). When the reader returns, the number of points is the
  \<open>NPOIN\<close> count, every point has three components and its line is in the file, and in
  a 2D file the third component of every point is exactly 0. For a point line that
  carries at least \<open>dimension\<close> fields (as the lines of a valid file do), the first
  \<open>dimension\<close> components of the point are \<open>float\<close> of the first \<open>dimension\<close> fields of
  the line, in order, and the remaining components are 0.
\<close>

theorem point_parsing:
  fixes pf :: "string \<Rightarrow> ('r :: zero) option"
  shows
  "read_su2 pf f = Inr (ndime, pts, vol_conns, vol_ctypes, markers) \<and>
   find_line (read_lines f) ''NPOIN'' = Some i \<and>
   header_int (read_lines f ! i) = Inr npoin \<longrightarrow>
     0 \<le> npoin \<and> int (length pts) = npoin \<and>
     (\<forall>k < length pts.
        length (pts ! k) = 3 \<and> i + 1 + k < length (read_lines f) \<and>
        (ndime = 2 \<longrightarrow> pts ! k ! 2 = 0) \<and>
        (0 \<le> ndime \<and> nat ndime \<le> length (split_ws (read_lines f ! (i + 1 + k))) \<longrightarrow>
           map (py_float pf) (take (nat ndime) (split_ws (read_lines f ! (i + 1 + k)))) =
             map Inr (take (nat ndime) (pts ! k)) \<and>
           nat ndime \<le> 3 \<and>
           drop (nat ndime) (pts ! k) = replicate (3 - nat ndime) 0))"
proof (intro impI)
  assume a: "read_su2 pf f = Inr (ndime, pts, vol_conns, vol_ctypes, markers) \<and>
   find_line (read_lines f) ''NPOIN'' = Some i \<and>
   header_int (read_lines f ! i) = Inr npoin"
  let ?L = "read_lines f"
  from a obtain pts0 :: "'r list list" where
    z: "np_zeros npoin = Inr pts0" and
    rp: "read_points pf ndime ?L i [0..<nat npoin] pts0 = Inr pts"
    by (auto simp: read_su2_Inr_iff)
  from z have n0: "0 \<le> npoin" and p0: "pts0 = replicate (nat npoin) [0, 0, 0]"
    by (auto simp: np_zeros_def split: if_splits)
  note R = read_points_Inr [OF rp distinct_upt]
  have len: "length pts = nat npoin" using R p0 by simp
  have rows: "\<forall>k < length pts.
        length (pts ! k) = 3 \<and> i + 1 + k < length ?L \<and>
        (ndime = 2 \<longrightarrow> pts ! k ! 2 = 0) \<and>
        (0 \<le> ndime \<and> nat ndime \<le> length (split_ws (?L ! (i + 1 + k))) \<longrightarrow>
           map (py_float pf) (take (nat ndime) (split_ws (?L ! (i + 1 + k)))) =
             map Inr (take (nat ndime) (pts ! k)) \<and>
           nat ndime \<le> 3 \<and>
           drop (nat ndime) (pts ! k) = replicate (3 - nat ndime) 0)"
  proof (intro allI impI)
    fix k assume k: "k < length pts"
    then have "k \<in> set [0..<nat npoin]" using len by simp
    with R obtain xyz where
      lk: "i + 1 + k < length ?L" and
      xyz: "map_res (py_float pf) (py_take ndime (split_ws (?L ! (i + 1 + k)))) = Inr xyz" and
      ap: "assign_prefix ndime xyz (pts0 ! k) = Inr (pts ! k)"
      by blast
    have "pts0 ! k = [0, 0, 0]" using k len p0 by simp
    with ap have ap0: "assign_prefix ndime xyz [0, 0, 0] = Inr (pts ! k)" by simp
    have c: "map (py_float pf) (take (nat ndime) (split_ws (?L ! (i + 1 + k)))) =
             map Inr (take (nat ndime) (pts ! k)) \<and>
           nat ndime \<le> 3 \<and>
           drop (nat ndime) (pts ! k) = replicate (3 - nat ndime) 0"
      if h: "0 \<le> ndime \<and> nat ndime \<le> length (split_ws (?L ! (i + 1 + k)))"
    proof -
      have t: "py_take ndime (split_ws (?L ! (i + 1 + k))) = take (nat ndime) (split_ws (?L ! (i + 1 + k)))"
        using h by (simp add: py_take_def)
      have m: "map (py_float pf) (take (nat ndime) (split_ws (?L ! (i + 1 + k)))) = map Inr xyz"
        using xyz unfolding t by (simp add: map_res_Inr_iff)
      then have "length (map (py_float pf) (take (nat ndime) (split_ws (?L ! (i + 1 + k))))) =
                 length (map Inr xyz :: (error + 'r) list)"
        by simp
      then have lx: "length xyz = nat ndime" using h by simp
      from assign_prefix_zeros(3) [OF ap0 _ lx] h
      have "nat ndime \<le> 3" "pts ! k = xyz @ replicate (3 - nat ndime) 0" by simp_all
      then show ?thesis using m lx by simp
    qed
    show "length (pts ! k) = 3 \<and> i + 1 + k < length ?L \<and>
        (ndime = 2 \<longrightarrow> pts ! k ! 2 = 0) \<and>
        (0 \<le> ndime \<and> nat ndime \<le> length (split_ws (?L ! (i + 1 + k))) \<longrightarrow>
           map (py_float pf) (take (nat ndime) (split_ws (?L ! (i + 1 + k)))) =
             map Inr (take (nat ndime) (pts ! k)) \<and>
           nat ndime \<le> 3 \<and>
           drop (nat ndime) (pts ! k) = replicate (3 - nat ndime) 0)"
      using assign_prefix_zeros(1,2) [OF ap0] lk c by blast
  qed
  show "0 \<le> npoin \<and> int (length pts) = npoin \<and>
     (\<forall>k < length pts.
        length (pts ! k) = 3 \<and> i + 1 + k < length ?L \<and>
        (ndime = 2 \<longrightarrow> pts ! k ! 2 = 0) \<and>
        (0 \<le> ndime \<and> nat ndime \<le> length (split_ws (?L ! (i + 1 + k))) \<longrightarrow>
           map (py_float pf) (take (nat ndime) (split_ws (?L ! (i + 1 + k)))) =
             map Inr (take (nat ndime) (pts ! k)) \<and>
           nat ndime \<le> 3 \<and>
           drop (nat ndime) (pts ! k) = replicate (3 - nat ndime) 0))"
    using n0 len rows by simp
qed

theorem point_parsing_witness:
  "read_su2 float_literal [''NDIME= 2'', ''NPOIN= 2'', ''0 1'', ''2 3 9'', ''NMARK= 0''] =
     Inr (2, [[0, 1, 0], [2, 3, 0]], [], [], []) \<and>
   find_line (read_lines [''NDIME= 2'', ''NPOIN= 2'', ''0 1'', ''2 3 9'', ''NMARK= 0''])
     ''NPOIN'' = Some 1 \<and>
   header_int (read_lines [''NDIME= 2'', ''NPOIN= 2'', ''0 1'', ''2 3 9'', ''NMARK= 0''] ! 1) =
     Inr 2 \<and>
   int (length [[0, 1, 0], [2, 3, 0 :: int]]) = 2 \<and>
   [[0, 1, 0], [2, 3, 0 :: int]] ! 1 ! 2 = 0 \<and>
   map (py_float float_literal)
     (take 2 (split_ws (read_lines [''NDIME= 2'', ''NPOIN= 2'', ''0 1'', ''2 3 9'', ''NMARK= 0''] ! 3))) =
     map Inr (take 2 ([[0, 1, 0], [2, 3, 0]] ! 1))"
proof -
  let ?F = "[''NDIME= 2'', ''NPOIN= 2'', ''0 1'', ''2 3 9'', ''NMARK= 0'']"
  let ?P = "[[0, 1, 0], [2, 3, 0 :: int]]"
  have h: "read_su2 float_literal ?F = Inr (2, ?P, [], [], [])" by code_simp
  have i: "find_line (read_lines ?F) ''NPOIN'' = Some 1" by code_simp
  have n: "header_int (read_lines ?F ! 1) = Inr 2" by code_simp
  have w: "(0 :: int) \<le> 2 \<and> nat 2 \<le> length (split_ws (read_lines ?F ! (1 + 1 + 1)))"
    by code_simp
  from point_parsing [of float_literal ?F 2 ?P "[]" "[]" "[]" 1 2] h i n
  have c: "int (length ?P) = 2" and
    r: "\<forall>k < length ?P.
        length (?P ! k) = 3 \<and> 1 + 1 + k < length (read_lines ?F) \<and>
        ((2 :: int) = 2 \<longrightarrow> ?P ! k ! 2 = 0) \<and>
        ((0 :: int) \<le> 2 \<and> nat 2 \<le> length (split_ws (read_lines ?F ! (1 + 1 + k))) \<longrightarrow>
           map (py_float float_literal) (take (nat 2) (split_ws (read_lines ?F ! (1 + 1 + k)))) =
             map Inr (take (nat 2) (?P ! k)) \<and>
           nat 2 \<le> 3 \<and>
           drop (nat 2) (?P ! k) = replicate (3 - nat 2) 0)"
    by blast+
  have k: "(1 :: nat) < length ?P" by simp
  from r [rule_format, OF k] w
  have z: "?P ! 1 ! 2 = 0" and
    m: "map (py_float float_literal) (take (nat 2) (split_ws (read_lines ?F ! (1 + 1 + 1)))) =
             map Inr (take (nat 2) (?P ! 1))"
    by blast+
  have e: "1 + 1 + 1 = (3 :: nat)" "nat 2 = 2" by simp_all
  from h i n c z m [unfolded e] show ?thesis by (intro conjI)
qed

text \<open>
  Claim C5 (missing sections), as the code has it. The reader looks the sections up in
  the order \<open>NDIME\<close>, \<open>NPOIN\<close>, \<open>NELEM\<close>, \<open>NMARK\<close>, each lookup after everything before
  it has been read. It raises the error that names a mandatory section exactly when
  that section is absent from the filtered lines and all that is read before its lookup
  was read without error; these three are its only \<open>RuntimeError\<close>s. Whenever a mandatory
  section is absent the reader fails, with that error or with the error of a malformed
  record met earlier. An absent \<open>NELEM\<close> is no error: the volume block then returns
  two empty lists, and the reader returns the file, with empty volume element lists,
  whenever the headers, the points and the markers are read.
\<close>

theorem missing_section:
  fixes pf :: "string \<Rightarrow> ('r :: zero) option"
  shows
  "(read_su2 pf f = Inl (RuntimeError ''NDIME not found'') \<longleftrightarrow>
      find_line (read_lines f) ''NDIME'' = None) \<and>
   (read_su2 pf f = Inl (RuntimeError ''NPOIN not found'') \<longleftrightarrow>
      find_line (read_lines f) ''NPOIN'' = None \<and>
      (\<exists>i ndime. find_line (read_lines f) ''NDIME'' = Some i \<and>
         header_int (read_lines f ! i) = Inr ndime)) \<and>
   (read_su2 pf f = Inl (RuntimeError ''NMARK not found'') \<longleftrightarrow>
      find_line (read_lines f) ''NMARK'' = None \<and>
      (\<exists>i ndime j npoin pts0 pts vol.
         find_line (read_lines f) ''NDIME'' = Some i \<and>
         header_int (read_lines f ! i) = Inr ndime \<and>
         find_line (read_lines f) ''NPOIN'' = Some j \<and>
         header_int (read_lines f ! j) = Inr npoin \<and>
         np_zeros npoin = Inr pts0 \<and>
         read_points pf ndime (read_lines f) j [0..<nat npoin] pts0 = Inr pts \<and>
         read_volume ndime (read_lines f) = Inr vol)) \<and>
   (\<forall>msg. read_su2 pf f = Inl (RuntimeError msg) \<longrightarrow>
      msg = ''NDIME not found'' \<or> msg = ''NPOIN not found'' \<or> msg = ''NMARK not found'') \<and>
   (find_line (read_lines f) ''NDIME'' = None \<or> find_line (read_lines f) ''NPOIN'' = None \<or>
    find_line (read_lines f) ''NMARK'' = None \<longrightarrow> (\<exists>e. read_su2 pf f = Inl e)) \<and>
   (\<forall>ndime pts vol_conns vol_ctypes markers.
      find_line (read_lines f) ''NELEM'' = None \<and>
      read_su2 pf f = Inr (ndime, pts, vol_conns, vol_ctypes, markers) \<longrightarrow>
      vol_conns = [] \<and> vol_ctypes = []) \<and>
   (find_line (read_lines f) ''NELEM'' = None \<longrightarrow>
      read_volume nd (read_lines f) = Inr ([], [])) \<and>
   (find_line (read_lines f) ''NELEM'' = None \<and>
    find_line (read_lines f) ''NDIME'' = Some i0 \<and>
    header_int (read_lines f ! i0) = Inr nd \<and>
    find_line (read_lines f) ''NPOIN'' = Some j0 \<and>
    header_int (read_lines f ! j0) = Inr np \<and>
    np_zeros np = Inr zs \<and>
    read_points pf nd (read_lines f) j0 [0..<nat np] zs = Inr ps \<and>
    find_line (read_lines f) ''NMARK'' = Some m0 \<and>
    header_int (read_lines f ! m0) = Inr nm \<and>
    read_markers nd (read_lines f) (nat nm) (m0 + 1) [] = Inr ms \<longrightarrow>
      read_su2 pf f = Inr (nd, ps, [], [], ms))"
proof -
  let ?L = "read_lines f"
  let ?R = "read_su2 pf f"
  note rt = read_su2_runtime [of pf f]
  have a: "?R = Inl (RuntimeError ''NDIME not found'') \<longleftrightarrow> find_line ?L ''NDIME'' = None"
  proof
    assume "?R = Inl (RuntimeError ''NDIME not found'')"
    from rt [OF this] show "find_line ?L ''NDIME'' = None" by simp
  next
    assume "find_line ?L ''NDIME'' = None"
    then show "?R = Inl (RuntimeError ''NDIME not found'')" by (simp add: read_su2_def)
  qed
  have b: "?R = Inl (RuntimeError ''NPOIN not found'') \<longleftrightarrow>
      find_line ?L ''NPOIN'' = None \<and>
      (\<exists>i ndime. find_line ?L ''NDIME'' = Some i \<and> header_int (?L ! i) = Inr ndime)"
  proof
    assume "?R = Inl (RuntimeError ''NPOIN not found'')"
    from rt [OF this] show "find_line ?L ''NPOIN'' = None \<and>
      (\<exists>i ndime. find_line ?L ''NDIME'' = Some i \<and> header_int (?L ! i) = Inr ndime)"
      by simp
  next
    assume "find_line ?L ''NPOIN'' = None \<and>
      (\<exists>i ndime. find_line ?L ''NDIME'' = Some i \<and> header_int (?L ! i) = Inr ndime)"
    then show "?R = Inl (RuntimeError ''NPOIN not found'')"
      by (auto simp: read_su2_def)
  qed
  have c: "?R = Inl (RuntimeError ''NMARK not found'') \<longleftrightarrow>
      find_line ?L ''NMARK'' = None \<and>
      (\<exists>i ndime j npoin pts0 pts vol.
         find_line ?L ''NDIME'' = Some i \<and> header_int (?L ! i) = Inr ndime \<and>
         find_line ?L ''NPOIN'' = Some j \<and> header_int (?L ! j) = Inr npoin \<and>
         np_zeros npoin = Inr pts0 \<and>
         read_points pf ndime ?L j [0..<nat npoin] pts0 = Inr pts \<and>
         read_volume ndime ?L = Inr vol)"
  proof
    assume "?R = Inl (RuntimeError ''NMARK not found'')"
    from rt [OF this] show "find_line ?L ''NMARK'' = None \<and>
      (\<exists>i ndime j npoin pts0 pts vol.
         find_line ?L ''NDIME'' = Some i \<and> header_int (?L ! i) = Inr ndime \<and>
         find_line ?L ''NPOIN'' = Some j \<and> header_int (?L ! j) = Inr npoin \<and>
         np_zeros npoin = Inr pts0 \<and>
         read_points pf ndime ?L j [0..<nat npoin] pts0 = Inr pts \<and>
         read_volume ndime ?L = Inr vol)"
      by simp
  next
    assume "find_line ?L ''NMARK'' = None \<and>
      (\<exists>i ndime j npoin pts0 pts vol.
         find_line ?L ''NDIME'' = Some i \<and> header_int (?L ! i) = Inr ndime \<and>
         find_line ?L ''NPOIN'' = Some j \<and> header_int (?L ! j) = Inr npoin \<and>
         np_zeros npoin = Inr pts0 \<and>
         read_points pf ndime ?L j [0..<nat npoin] pts0 = Inr pts \<and>
         read_volume ndime ?L = Inr vol)"
    then show "?R = Inl (RuntimeError ''NMARK not found'')"
      by (auto simp: read_su2_def)
  qed
  have d: "\<forall>msg. ?R = Inl (RuntimeError msg) \<longrightarrow>
      msg = ''NDIME not found'' \<or> msg = ''NPOIN not found'' \<or> msg = ''NMARK not found''"
    using rt by blast
  have e: "find_line ?L ''NDIME'' = None \<or> find_line ?L ''NPOIN'' = None \<or>
    find_line ?L ''NMARK'' = None \<longrightarrow> (\<exists>e. ?R = Inl e)"
  proof
    assume n: "find_line ?L ''NDIME'' = None \<or> find_line ?L ''NPOIN'' = None \<or>
      find_line ?L ''NMARK'' = None"
    show "\<exists>e. ?R = Inl e"
    proof (cases ?R)
      case (Inl e)
      then show ?thesis by blast
    next
      case (Inr res)
      obtain ndime pts vol_conns vol_ctypes markers where
        "res = (ndime, pts, vol_conns, vol_ctypes, markers)" by (cases res) auto
      with Inr have "?R = Inr (ndime, pts, vol_conns, vol_ctypes, markers)" by simp
      then have "find_line ?L ''NDIME'' \<noteq> None \<and> find_line ?L ''NPOIN'' \<noteq> None \<and>
          find_line ?L ''NMARK'' \<noteq> None"
        unfolding read_su2_Inr_iff by auto
      with n show ?thesis by blast
    qed
  qed
  have g: "\<forall>ndime pts vol_conns vol_ctypes markers.
      find_line ?L ''NELEM'' = None \<and>
      ?R = Inr (ndime, pts, vol_conns, vol_ctypes, markers) \<longrightarrow>
      vol_conns = [] \<and> vol_ctypes = []"
    by (auto simp: read_su2_Inr_iff read_volume_def)
  have v: "find_line ?L ''NELEM'' = None \<longrightarrow> read_volume nd ?L = Inr ([], [])"
    by (simp add: read_volume_def)
  have w: "find_line ?L ''NELEM'' = None \<and>
    find_line ?L ''NDIME'' = Some i0 \<and> header_int (?L ! i0) = Inr nd \<and>
    find_line ?L ''NPOIN'' = Some j0 \<and> header_int (?L ! j0) = Inr np \<and>
    np_zeros np = Inr zs \<and>
    read_points pf nd ?L j0 [0..<nat np] zs = Inr ps \<and>
    find_line ?L ''NMARK'' = Some m0 \<and> header_int (?L ! m0) = Inr nm \<and>
    read_markers nd ?L (nat nm) (m0 + 1) [] = Inr ms \<longrightarrow>
      ?R = Inr (nd, ps, [], [], ms)"
    unfolding read_su2_Inr_iff by (auto simp: read_volume_def)
  from a b c d e g v w show ?thesis by (intro conjI)
qed

theorem missing_section_witness:
  "find_line (read_lines [''NDIME= 2'', ''NPOIN= 1'', ''0 0'']) ''NMARK'' = None \<and>
   find_line (read_lines [''NDIME= 2'', ''NPOIN= 1'', ''0 0'']) ''NELEM'' = None \<and>
   read_su2 float_literal [''NDIME= 2'', ''NPOIN= 1'', ''0 0''] =
     Inl (RuntimeError ''NMARK not found'') \<and>
   find_line (read_lines [''NDIME= 2'', ''NPOIN= 1'', ''0 0'', ''NMARK= 0'']) ''NELEM'' = None \<and>
   read_volume 2 (read_lines [''NDIME= 2'', ''NPOIN= 1'', ''0 0'', ''NMARK= 0'']) = Inr ([], []) \<and>
   read_su2 float_literal [''NDIME= 2'', ''NPOIN= 1'', ''0 0'', ''NMARK= 0''] =
     Inr (2, [[0, 0, 0]], [], [], [])"
proof -
  let ?F = "[''NDIME= 2'', ''NPOIN= 1'', ''0 0'']"
  let ?G = "[''NDIME= 2'', ''NPOIN= 1'', ''0 0'', ''NMARK= 0'']"
  have m: "find_line (read_lines ?F) ''NMARK'' = None" by code_simp
  have v: "find_line (read_lines ?F) ''NELEM'' = None" by code_simp
  have 1: "find_line (read_lines ?F) ''NDIME'' = Some 0" by code_simp
  have 2: "header_int (read_lines ?F ! 0) = Inr 2" by code_simp
  have 3: "find_line (read_lines ?F) ''NPOIN'' = Some 1" by code_simp
  have 4: "header_int (read_lines ?F ! 1) = Inr 1" by code_simp
  have 5: "np_zeros 1 = Inr [[0, 0, 0 :: int]]" by code_simp
  have 6: "read_points float_literal 2 (read_lines ?F) 1 [0..<nat 1] [[0, 0, 0]] = Inr [[0, 0, 0]]"
    by code_simp
  have 7: "read_volume 2 (read_lines ?F) = Inr ([], [])" by code_simp
  have "\<exists>i ndime j npoin pts0 pts vol.
         find_line (read_lines ?F) ''NDIME'' = Some i \<and>
         header_int (read_lines ?F ! i) = Inr ndime \<and>
         find_line (read_lines ?F) ''NPOIN'' = Some j \<and>
         header_int (read_lines ?F ! j) = Inr npoin \<and>
         np_zeros npoin = Inr pts0 \<and>
         read_points float_literal ndime (read_lines ?F) j [0..<nat npoin] pts0 = Inr pts \<and>
         read_volume ndime (read_lines ?F) = Inr vol"
    using 1 2 3 4 5 6 7 by blast
  with m missing_section [of float_literal ?F, THEN conjunct2, THEN conjunct2, THEN conjunct1]
  have r: "read_su2 float_literal ?F = Inl (RuntimeError ''NMARK not found'')" by blast
  have e: "find_line (read_lines ?G) ''NELEM'' = None" by code_simp
  have g1: "find_line (read_lines ?G) ''NDIME'' = Some 0" by code_simp
  have g2: "header_int (read_lines ?G ! 0) = Inr 2" by code_simp
  have g3: "find_line (read_lines ?G) ''NPOIN'' = Some 1" by code_simp
  have g4: "header_int (read_lines ?G ! 1) = Inr 1" by code_simp
  have g5: "read_points float_literal 2 (read_lines ?G) 1 [0..<nat 1] [[0, 0, 0]] = Inr [[0, 0, 0]]"
    by code_simp
  have g6: "find_line (read_lines ?G) ''NMARK'' = Some 3" by code_simp
  have g7: "header_int (read_lines ?G ! 3) = Inr 0" by code_simp
  have g8: "read_markers 2 (read_lines ?G) (nat 0) (3 + 1) [] = Inr []" by code_simp
  note G = missing_section [of float_literal ?G 2 0 1 1 "[[0, 0, 0]]" "[[0, 0, 0]]" 3 0 "[]"]
  from G e have x: "read_volume 2 (read_lines ?G) = Inr ([], [])" by blast
  from G e g1 g2 g3 g4 5 g5 g6 g7 g8
  have g: "read_su2 float_literal ?G = Inr (2, [[0, 0, 0]], [], [], [])" by blast
  from m v r e x g show ?thesis by (intro conjI)
qed

theorem missing_section_counterexample:
  "find_line (read_lines [''NDIME'']) ''NPOIN'' = None \<and>
   read_su2 float_literal [''NDIME''] = Inl IndexError"
proof -
  have "find_line (read_lines [''NDIME'']) ''NPOIN'' = None" by code_simp
  moreover have "read_su2 float_literal [''NDIME''] = Inl IndexError" by code_simp
  ultimately show ?thesis by (intro conjI)
qed

end
